theory Spec2Isabelle
  imports Complex_Main
begin

section \<open>The JavaScript platform, as far as the repository uses it\<close>

text \<open>
  The repository is JavaScript for Node.js: \<^verbatim>\<open>src/helpers.js\<close> (the loopback callback
  handlers) and \<^verbatim>\<open>src/lib/main.js\<close> (the native-window watcher). Its functions are a thin
  layer over built-ins of the platform: \<^verbatim>\<open>JSON.parse\<close>, \<^verbatim>\<open>JSON.stringify\<close>,
  \<^verbatim>\<open>querystring.parse\<close>, \<^verbatim>\<open>url.URL\<close>, regular expressions and the response object of
  \<^verbatim>\<open>http\<close>. This section gives those built-ins as executable functions; the sections after it
  translate the repository's own functions one by one.

  A JavaScript string is modelled by a \<^typ>\<open>string\<close> holding the UTF-8 bytes of its text.
  Equality, concatenation, prefix tests and searches for ASCII characters agree with
  JavaScript's on well-formed text. An exception is a value: every function that can throw
  returns \<open>js_error + 'a\<close>, with \<open>Inl\<close> for the exception.
\<close>

datatype js_error = SyntaxError | TypeError | ReferenceError | Error string

subsection \<open>JSON values\<close>

text \<open>
  A JavaScript number is a double: a finite one is given by its value, a rational number
  \<open>m * 2^e\<close> with \<open>\<bar>m\<bar> < 2^53\<close> and \<open>-1074 \<le> e \<le> 971\<close>, and \<open>Fin 0\<close> is \<open>+0\<close>.
\<close>

datatype number = Fin rat | NegZero | Infinity | NegInfinity | NaN

text \<open>
  What \<^verbatim>\<open>JSON.parse\<close> returns. An object is the list of its properties in the order of their
  first insertion, with distinct keys.
\<close>

datatype json = JNull | JBool bool | JNum number | JStr string
  | JArr "json list" | JObj "(string \<times> json) list"

definition is_digit :: "char \<Rightarrow> bool" where
  "is_digit c = (48 \<le> (of_char c :: nat) \<and> (of_char c :: nat) \<le> 57)"

definition digit_char :: "nat \<Rightarrow> char" where
  "digit_char d = ''0123456789'' ! d"

text \<open>The decimal digits of an integer \<open>n \<ge> 0\<close>, and the integer that digits denote.\<close>

function decimal :: "int \<Rightarrow> string" where
  "decimal n =
     (if n < 10 then [digit_char (nat n)] else decimal (n div 10) @ [digit_char (nat (n mod 10))])"
  by pat_completeness auto
termination
  by (relation "measure nat") auto

declare decimal.simps [simp del]

definition read_nat :: "string \<Rightarrow> int" where
  "read_nat s = foldl (\<lambda>acc c. 10 * acc + (of_char c - 48)) 0 s"

fun join :: "'a list \<Rightarrow> 'a list list \<Rightarrow> 'a list" where
  "join sep [] = []"
| "join sep [x] = x"
| "join sep (x # y # ys) = x @ sep @ join sep (y # ys)"

subsection \<open>Numbers and their literals\<close>

text \<open>\<open>pow b e\<close> is \<open>b^e\<close> for an integer \<open>e\<close> of either sign.\<close>

definition pow :: "int \<Rightarrow> int \<Rightarrow> rat" where
  "pow b e = (if 0 \<le> e then of_int b ^ nat e else 1 / of_int b ^ nat (- e))"

text \<open>The number of digits of \<open>n > 0\<close> in base \<open>b\<close>.\<close>

function places :: "int \<Rightarrow> int \<Rightarrow> nat" where
  "places b n = (if n \<le> 0 \<or> b < 2 then 0 else Suc (places b (n div b)))"
  by pat_completeness auto
termination
proof (relation "measure (\<lambda>(b, n). nat n)", goal_cases)
  case 1
  show ?case by simp
next
  case (2 b n)
  then have "n div b < n" by (simp add: int_div_less_self)
  with 2 show ?case by simp
qed

declare places.simps [simp del]

text \<open>For \<open>q > 0\<close>, the integer \<open>n\<close> with \<open>b^(n-1) \<le> q < b^n\<close>.\<close>

definition magnitude :: "int \<Rightarrow> rat \<Rightarrow> int" where
  "magnitude b q =
     (if 1 \<le> q then int (places b \<lfloor>q\<rfloor>)
      else let d = int (places b \<lfloor>1 / q\<rfloor>) in
        if q * pow b (d - 1) = 1 then 2 - d else 1 - d)"

text \<open>
  The double nearest to \<open>q \<ge> 0\<close>, ties to the even significand: \<open>q\<close> is scaled by the
  spacing \<open>2^e\<close> of the doubles around it (53 significant bits, and no finer than \<open>2^-1074\<close>)
  and rounded to an integer. What rounds to \<open>2^1024\<close> or more is \<^verbatim>\<open>Infinity\<close>.
\<close>

definition round_double :: "rat \<Rightarrow> number" where
  "round_double q =
     (if q = 0 then Fin 0
      else
        let e = max (magnitude 2 q - 53) (- 1074);
            t = q / pow 2 e;
            f = \<lfloor>t\<rfloor>;
            m = (if t - of_int f < 1 / 2 \<or> (t - of_int f = 1 / 2 \<and> even f) then f else f + 1);
            v = of_int m * pow 2 e
        in if 2 ^ 1024 \<le> \<lfloor>v\<rfloor> then Infinity else Fin v)"

definition negate :: "number \<Rightarrow> number" where
  "negate x =
     (case x of
        Fin q \<Rightarrow> if q = 0 then NegZero else Fin (- q)
      | NegZero \<Rightarrow> Fin 0
      | Infinity \<Rightarrow> NegInfinity
      | NegInfinity \<Rightarrow> Infinity
      | NaN \<Rightarrow> NaN)"

text \<open>
  The value of a decimal literal with the integer part \<open>ip\<close>, the fraction \<open>fp\<close> and the
  exponent \<open>ex\<close>: the double nearest to \<open>ip.fp * 10^ex\<close>, negated under a minus sign
  (\<^verbatim>\<open>-0\<close> is the negative zero).
\<close>

definition number_of_parts :: "bool \<Rightarrow> string \<Rightarrow> string \<Rightarrow> int \<Rightarrow> number" where
  "number_of_parts neg ip fp ex =
     (let mag = round_double (of_int (read_nat (ip @ fp)) * pow 10 (ex - int (length fp)))
      in if neg then negate mag else mag)"

text \<open>
  \<^verbatim>\<open>Number.prototype.toString\<close> prints a double \<open>x > 0\<close> with the fewest digits that read
  back as \<open>x\<close>: it takes integers \<open>s\<close> and \<open>p\<close> such that \<open>s * 10^p\<close> rounds to \<open>x\<close> and
  \<open>s\<close> has as few digits \<open>k\<close> as possible, and of several such \<open>s\<close> the one nearest to
  \<open>x\<close>. For a given \<open>k\<close> only the two multiples of \<open>10^p\<close> around \<open>x\<close> can qualify. The
  search ends at the latest when \<open>10^p\<close> divides \<open>x\<close>, which every double reaches by
  \<open>p = -1074\<close>; in fact 17 digits always suffice.
\<close>

definition reads :: "rat \<Rightarrow> int \<Rightarrow> int \<Rightarrow> bool" where
  "reads x s p = (round_double (of_int s * pow 10 p) = Fin x)"

function shortest :: "rat \<Rightarrow> int \<Rightarrow> int \<times> int" where
  "shortest x k =
     (let p = magnitude 10 x - k; lo = \<lfloor>x / pow 10 p\<rfloor>; hi = lo + 1 in
      if reads x lo p \<and> (\<not> reads x hi p
           \<or> x - of_int lo * pow 10 p < of_int hi * pow 10 p - x
           \<or> (x - of_int lo * pow 10 p = of_int hi * pow 10 p - x \<and> even lo))
        then (lo, p)
      else if reads x hi p then (hi, p)
      else if 1074 \<le> - p then (lo, p)
      else shortest x (k + 1))"
  by pat_completeness auto
termination
  by (relation "measure (\<lambda>(x, k). nat (1074 + magnitude 10 x - k))") auto

declare shortest.simps [simp del]

text \<open>The upper neighbour can be a power of ten; its zeros go into the exponent.\<close>

function strip_zeros :: "int \<Rightarrow> int \<Rightarrow> int \<times> int" where
  "strip_zeros s p = (if s \<noteq> 0 \<and> s mod 10 = 0 then strip_zeros (s div 10) (p + 1) else (s, p))"
  by pat_completeness auto
termination
  by (relation "measure (\<lambda>(s, p). nat \<bar>s\<bar>)") auto

declare strip_zeros.simps [simp del]

text \<open>
  The digits \<open>ds\<close> of \<open>s\<close> with the decimal point after the first \<open>n\<close> of them: written out
  when \<open>-6 < n \<le> 21\<close>, in exponent notation otherwise.
\<close>

definition layout :: "string \<Rightarrow> int \<Rightarrow> string" where
  "layout ds n =
     (let k = int (length ds) in
      if k \<le> n \<and> n \<le> 21 then ds @ replicate (nat (n - k)) CHR ''0''
      else if 0 < n \<and> n \<le> 21 then take (nat n) ds @ ''.'' @ drop (nat n) ds
      else if - 6 < n \<and> n \<le> 0 then ''0.'' @ replicate (nat (- n)) CHR ''0'' @ ds
      else
        (if tl ds = [] then ds else hd ds # ''.'' @ tl ds)
        @ ''e'' @ (if n - 1 < 0 then ''-'' else ''+'') @ decimal \<bar>n - 1\<bar>)"

definition digits_of :: "rat \<Rightarrow> string" where
  "digits_of x =
     (case shortest x 1 of
        (s, p) \<Rightarrow>
          (case strip_zeros s p of
             (s', p') \<Rightarrow> layout (decimal s') (p' + int (length (decimal s')))))"

definition Number_toString :: "number \<Rightarrow> string" where
  "Number_toString x =
     (case x of
        Fin q \<Rightarrow> if q = 0 then ''0'' else if q < 0 then ''-'' @ digits_of (- q) else digits_of q
      | NegZero \<Rightarrow> ''0''
      | Infinity \<Rightarrow> ''Infinity''
      | NegInfinity \<Rightarrow> ''-Infinity''
      | NaN \<Rightarrow> ''NaN'')"

subsection \<open>\<^verbatim>\<open>JSON.stringify\<close>\<close>

definition hex_char :: "nat \<Rightarrow> char" where
  "hex_char d = ''0123456789abcdef'' ! d"

definition escape_char :: "char \<Rightarrow> string" where
  "escape_char c =
     (if c = CHR 0x22 then [CHR 0x5C, CHR 0x22]
      else if c = CHR 0x5C then [CHR 0x5C, CHR 0x5C]
      else if c = CHR 0x08 then [CHR 0x5C, CHR ''b'']
      else if c = CHR 0x0C then [CHR 0x5C, CHR ''f'']
      else if c = CHR 0x0A then [CHR 0x5C, CHR ''n'']
      else if c = CHR 0x0D then [CHR 0x5C, CHR ''r'']
      else if c = CHR 0x09 then [CHR 0x5C, CHR ''t'']
      else if (of_char c :: nat) < 32
        then [CHR 0x5C, CHR ''u'', CHR ''0'', CHR ''0'',
              hex_char (of_char c div 16), hex_char (of_char c mod 16)]
      else [c])"

definition quote :: "string \<Rightarrow> string" where
  "quote s = CHR 0x22 # concat (map escape_char s) @ [CHR 0x22]"

text \<open>
  \<^verbatim>\<open>JSON.stringify(value)\<close> with no indentation. A finite number prints as
  \<^verbatim>\<open>toString\<close> gives it, any other number as \<^verbatim>\<open>null\<close>.
\<close>

fun JSON_stringify :: "json \<Rightarrow> string" where
  "JSON_stringify JNull = ''null''"
| "JSON_stringify (JBool b) = (if b then ''true'' else ''false'')"
| "JSON_stringify (JNum x) =
     (case x of Fin q \<Rightarrow> Number_toString x | NegZero \<Rightarrow> ''0'' | _ \<Rightarrow> ''null'')"
| "JSON_stringify (JStr s) = quote s"
| "JSON_stringify (JArr xs) = ''['' @ join '','' (map JSON_stringify xs) @ '']''"
| "JSON_stringify (JObj kvs) =
     ''{'' @ join '','' (map (\<lambda>(k, v). quote k @ '':'' @ JSON_stringify v) kvs) @ ''}''"

text \<open>
  The JSON-serializable values: every number is a finite double other than \<^verbatim>\<open>-0\<close>
  (\<^verbatim>\<open>JSON.stringify\<close> prints \<^verbatim>\<open>-0\<close> as \<^verbatim>\<open>0\<close>, and \<^verbatim>\<open>NaN\<close> and the infinities as \<^verbatim>\<open>null\<close>),
  and the keys of an object are distinct, as those of a JavaScript object are. A rational
  number is a double when rounding leaves it as it is.
\<close>

definition is_double :: "rat \<Rightarrow> bool" where
  "is_double q = (round_double \<bar>q\<bar> = Fin \<bar>q\<bar>)"

fun serializable :: "json \<Rightarrow> bool" where
  "serializable (JNum x) = (case x of Fin q \<Rightarrow> is_double q | _ \<Rightarrow> False)"
| "serializable (JArr xs) = (\<forall>x \<in> set xs. serializable x)"
| "serializable (JObj kvs) = (distinct (map fst kvs) \<and> (\<forall>(k, v) \<in> set kvs. serializable v))"
| "serializable _ = True"

subsection \<open>\<^verbatim>\<open>JSON.parse\<close>: the lexer\<close>

datatype token = TLBrace | TRBrace | TLBracket | TRBracket | TColon | TComma
  | TScalar json | TString string

text \<open>
  The characters of a string literal: a byte of the text itself, or the UTF-16 code unit
  of a \<^verbatim>\<open>\uXXXX\<close> escape, which is written out as UTF-8 (two escapes that form a surrogate
  pair as the one code point they encode).
\<close>

datatype piece = Byte char | Unit nat

definition is_hex :: "char \<Rightarrow> bool" where
  "is_hex c = (is_digit c \<or> (65 \<le> (of_char c :: nat) \<and> (of_char c :: nat) \<le> 70)
     \<or> (97 \<le> (of_char c :: nat) \<and> (of_char c :: nat) \<le> 102))"

definition hex_val :: "char \<Rightarrow> nat" where
  "hex_val c = (if is_digit c then of_char c - 48
     else if (of_char c :: nat) \<le> 70 then of_char c - 55 else of_char c - 87)"

definition simple_escape :: "char \<Rightarrow> char option" where
  "simple_escape e =
     (if e = CHR 0x22 then Some (CHR 0x22)
      else if e = CHR 0x5C then Some (CHR 0x5C)
      else if e = CHR ''/'' then Some (CHR ''/'')
      else if e = CHR ''b'' then Some (CHR 0x08)
      else if e = CHR ''f'' then Some (CHR 0x0C)
      else if e = CHR ''n'' then Some (CHR 0x0A)
      else if e = CHR ''r'' then Some (CHR 0x0D)
      else if e = CHR ''t'' then Some (CHR 0x09)
      else None)"

definition push_piece :: "piece \<Rightarrow> (piece list \<times> string) option \<Rightarrow> (piece list \<times> string) option" where
  "push_piece p r = (case r of None \<Rightarrow> None | Some (ps, rest) \<Rightarrow> Some (p # ps, rest))"

text \<open>The rest of a string literal after its opening quote, up to the closing one.\<close>

fun lex_string :: "string \<Rightarrow> (piece list \<times> string) option" where
  "lex_string [] = None"
| "lex_string (c # cs) =
     (if c = CHR 0x22 then Some ([], cs)
      else if c = CHR 0x5C then
        (case cs of
           [] \<Rightarrow> None
         | e # es \<Rightarrow>
             if e = CHR ''u'' then
               (case es of
                  h1 # h2 # h3 # h4 # r \<Rightarrow>
                    if is_hex h1 \<and> is_hex h2 \<and> is_hex h3 \<and> is_hex h4
                    then push_piece
                           (Unit (((hex_val h1 * 16 + hex_val h2) * 16 + hex_val h3) * 16 + hex_val h4))
                           (lex_string r)
                    else None
                | _ \<Rightarrow> None)
             else (case simple_escape e of
                     None \<Rightarrow> None
                   | Some ch \<Rightarrow> push_piece (Byte ch) (lex_string es)))
      else if (of_char c :: nat) < 32 then None
      else push_piece (Byte c) (lex_string cs))"

definition utf8 :: "nat \<Rightarrow> string" where
  "utf8 cp =
     (if cp < 128 then [char_of cp]
      else if cp < 2048 then [char_of (192 + cp div 64), char_of (128 + cp mod 64)]
      else if cp < 65536 then
        [char_of (224 + cp div 4096), char_of (128 + cp div 64 mod 64), char_of (128 + cp mod 64)]
      else [char_of (240 + cp div 262144), char_of (128 + cp div 4096 mod 64),
            char_of (128 + cp div 64 mod 64), char_of (128 + cp mod 64)])"

fun utf8_of_pieces :: "piece list \<Rightarrow> string" where
  "utf8_of_pieces [] = []"
| "utf8_of_pieces (Byte c # ps) = c # utf8_of_pieces ps"
| "utf8_of_pieces (Unit h # Unit l # ps) =
     (if 55296 \<le> h \<and> h < 56320 \<and> 56320 \<le> l \<and> l < 57344
      then utf8 (65536 + (h - 55296) * 1024 + (l - 56320)) @ utf8_of_pieces ps
      else utf8 h @ utf8_of_pieces (Unit l # ps))"
| "utf8_of_pieces (Unit u # ps) = utf8 u @ utf8_of_pieces ps"

text \<open>
  A number literal, by the grammar of JSON: an optional minus, an integer part without a
  leading zero, an optional fraction, an optional exponent. The result is the number the
  literal denotes and the text after it.
\<close>

definition lex_frac :: "string \<Rightarrow> (string \<times> string) option" where
  "lex_frac s =
     (case s of
        [] \<Rightarrow> Some ([], s)
      | c # cs \<Rightarrow>
          if c = CHR ''.'' then
            (if takeWhile is_digit cs = [] then None
             else Some (takeWhile is_digit cs, dropWhile is_digit cs))
          else Some ([], s))"

definition lex_sign :: "string \<Rightarrow> string \<times> string" where
  "lex_sign s =
     (case s of
        [] \<Rightarrow> ([], s)
      | c # cs \<Rightarrow> if c = CHR ''+'' \<or> c = CHR ''-'' then ([c], cs) else ([], s))"

definition lex_exp :: "string \<Rightarrow> (int \<times> string) option" where
  "lex_exp s =
     (case s of
        [] \<Rightarrow> Some (0, s)
      | c # cs \<Rightarrow>
          if c = CHR ''e'' \<or> c = CHR ''E'' then
            (case lex_sign cs of
               (sg, r) \<Rightarrow>
                 if takeWhile is_digit r = [] then None
                 else Some ((if sg = ''-'' then - read_nat (takeWhile is_digit r)
                             else read_nat (takeWhile is_digit r)),
                            dropWhile is_digit r))
          else Some (0, s))"

definition lex_minus :: "string \<Rightarrow> string \<times> string" where
  "lex_minus s =
     (case s of
        [] \<Rightarrow> ([], s)
      | c # cs \<Rightarrow> if c = CHR ''-'' then ([c], cs) else ([], s))"

definition lex_number :: "string \<Rightarrow> (number \<times> string) option" where
  "lex_number s =
     (case lex_minus s of
        (sg, s1) \<Rightarrow>
          let ip = takeWhile is_digit s1 in
          if ip = [] \<or> (hd ip = CHR ''0'' \<and> tl ip \<noteq> []) then None
          else (case lex_frac (dropWhile is_digit s1) of
                  None \<Rightarrow> None
                | Some (fp, s3) \<Rightarrow>
                    (case lex_exp s3 of
                       None \<Rightarrow> None
                     | Some (ex, s4) \<Rightarrow> Some (number_of_parts (sg = ''-'') ip fp ex, s4))))"

definition is_ws :: "char \<Rightarrow> bool" where
  "is_ws c = (c = CHR '' '' \<or> c = CHR 0x09 \<or> c = CHR 0x0A \<or> c = CHR 0x0D)"

definition push_token :: "token \<Rightarrow> token list option \<Rightarrow> token list option" where
  "push_token t r = (case r of None \<Rightarrow> None | Some ts \<Rightarrow> Some (t # ts))"

lemma push_piece_Some:
  "push_piece p r = Some (ps, rest) \<longleftrightarrow> (\<exists>qs. r = Some (qs, rest) \<and> ps = p # qs)"
  by (cases r) (auto simp: push_piece_def)

lemma lex_string_shorter: "lex_string s = Some (ps, rest) \<Longrightarrow> length rest < length s"
proof (induction s arbitrary: ps rest rule: lex_string.induct)
  case 1
  then show ?case by simp
next
  case (2 c cs)
  show ?case
  proof (cases "c = CHR 0x22")
    case True
    with "2.prems" show ?thesis by simp
  next
    case quote: False
    show ?thesis
    proof (cases "c = CHR 0x5C")
      case False
      with quote "2.prems" obtain qs where "lex_string cs = Some (qs, rest)"
        by (auto simp: push_piece_Some split: if_splits)
      with "2.IH"(3)[OF quote False] quote False "2.prems" show ?thesis
        by (auto split: if_splits)
    next
      case True
      show ?thesis
      proof (cases cs)
        case Nil
        with True quote "2.prems" show ?thesis by simp
      next
        case (Cons e es)
        show ?thesis
        proof (cases "e = CHR ''u''")
          case False
          with True quote Cons "2.prems" obtain ch qs where
            "simple_escape e = Some ch" "lex_string es = Some (qs, rest)"
            by (auto simp: push_piece_Some split: option.splits)
          with "2.IH"(2)[OF quote True Cons False] Cons show ?thesis by fastforce
        next
          case u: True
          with True quote Cons "2.prems" obtain h1 h2 h3 h4 r qs where
            es: "es = h1 # h2 # h3 # h4 # r" and "lex_string r = Some (qs, rest)"
            and "is_hex h1 \<and> is_hex h2 \<and> is_hex h3 \<and> is_hex h4"
            by (auto simp: push_piece_Some split: list.splits if_splits)
          with "2.IH"(1)[OF quote True Cons u] Cons show ?thesis by fastforce
        qed
      qed
    qed
  qed
qed

lemma lex_frac_shorter: "lex_frac s = Some (fp, r) \<Longrightarrow> length r \<le> length s"
  by (auto simp: lex_frac_def split: list.splits if_splits intro: le_SucI length_dropWhile_le)

lemma lex_exp_shorter: "lex_exp s = Some (ep, r) \<Longrightarrow> length r \<le> length s"
  by (auto simp: lex_exp_def lex_sign_def split: list.splits if_splits prod.splits
      intro: le_SucI length_dropWhile_le)

lemma lex_number_shorter:
  assumes "lex_number s = Some (x, rest)"
  shows "length rest < length s"
proof -
  obtain sg s1 where sg: "lex_minus s = (sg, s1)"
    by (cases "lex_minus s") auto
  then have s1: "length s1 \<le> length s"
    by (auto simp: lex_minus_def split: list.splits if_splits)
  from assms sg obtain fp s3 ep where
    ip: "takeWhile is_digit s1 \<noteq> []" and
    fr: "lex_frac (dropWhile is_digit s1) = Some (fp, s3)" and
    ex: "lex_exp s3 = Some (ep, rest)"
    by (auto simp: lex_number_def Let_def split: if_splits option.splits)
  have "length (takeWhile is_digit s1) + length (dropWhile is_digit s1) = length s1"
    by (metis length_append takeWhile_dropWhile_id)
  with ip have "length (dropWhile is_digit s1) < length s1"
    by (cases "takeWhile is_digit s1") auto
  with lex_frac_shorter[OF fr] lex_exp_shorter[OF ex] s1 show ?thesis by linarith
qed

function tokenize :: "string \<Rightarrow> token list option" where
  "tokenize [] = Some []"
| "tokenize (c # cs) =
     (if is_ws c then tokenize cs
      else if c = CHR ''{'' then push_token TLBrace (tokenize cs)
      else if c = CHR ''}'' then push_token TRBrace (tokenize cs)
      else if c = CHR ''['' then push_token TLBracket (tokenize cs)
      else if c = CHR '']'' then push_token TRBracket (tokenize cs)
      else if c = CHR '':'' then push_token TColon (tokenize cs)
      else if c = CHR '','' then push_token TComma (tokenize cs)
      else if c = CHR 0x22 then
        (case lex_string cs of
           None \<Rightarrow> None
         | Some (ps, rest) \<Rightarrow> push_token (TString (utf8_of_pieces ps)) (tokenize rest))
      else if c = CHR ''-'' \<or> is_digit c then
        (case lex_number (c # cs) of
           None \<Rightarrow> None
         | Some (x, rest) \<Rightarrow> push_token (TScalar (JNum x)) (tokenize rest))
      else if take 4 (c # cs) = ''true'' then push_token (TScalar (JBool True)) (tokenize (drop 3 cs))
      else if take 5 (c # cs) = ''false'' then push_token (TScalar (JBool False)) (tokenize (drop 4 cs))
      else if take 4 (c # cs) = ''null'' then push_token (TScalar JNull) (tokenize (drop 3 cs))
      else None)"
  by pat_completeness auto
termination
proof (relation "measure length", goal_cases)
  case 1
  show ?case by simp
next
  case (9 c cs x2 x y)
  then show ?case using lex_string_shorter[of cs x y] by simp
next
  case (10 c cs x2 x y)
  then show ?case using lex_number_shorter[of "c # cs" x y] by simp
qed simp_all

declare tokenize.simps [simp del]

subsection \<open>\<^verbatim>\<open>JSON.parse\<close>: the parser\<close>

text \<open>
  The tokens drive a pushdown automaton: the stack holds the arrays and objects that are
  still open, the mode says what may come next. Setting a property that the object already
  has replaces its value in place, so of two equal keys the later one wins.
\<close>

datatype frame = FArr "json list" | FObj "(string \<times> json) list"
  | FKey "(string \<times> json) list" string

datatype pmode = PValue | PFirst | PObjFirst | PKey | PColon | PAfter | PDone json

fun set_prop :: "(string \<times> json) list \<Rightarrow> string \<Rightarrow> json \<Rightarrow> (string \<times> json) list" where
  "set_prop [] k v = [(k, v)]"
| "set_prop (p # ps) k v = (if fst p = k then (k, v) # ps else p # set_prop ps k v)"

fun reduce :: "json \<Rightarrow> frame list \<Rightarrow> (pmode \<times> frame list) option" where
  "reduce v [] = Some (PDone v, [])"
| "reduce v (FArr items # st) = Some (PAfter, FArr (items @ [v]) # st)"
| "reduce v (FKey ms k # st) = Some (PAfter, FObj (set_prop ms k v) # st)"
| "reduce v (FObj ms # st) = None"

fun value_start :: "token \<Rightarrow> frame list \<Rightarrow> (pmode \<times> frame list) option" where
  "value_start TLBracket st = Some (PFirst, FArr [] # st)"
| "value_start TLBrace st = Some (PObjFirst, FObj [] # st)"
| "value_start (TScalar v) st = reduce v st"
| "value_start (TString s) st = reduce (JStr s) st"
| "value_start _ st = None"

fun key_start :: "token \<Rightarrow> frame list \<Rightarrow> (pmode \<times> frame list) option" where
  "key_start (TString k) (FObj ms # st) = Some (PColon, FKey ms k # st)"
| "key_start _ _ = None"

fun close_array :: "frame list \<Rightarrow> (pmode \<times> frame list) option" where
  "close_array (FArr items # st) = reduce (JArr items) st"
| "close_array _ = None"

fun close_object :: "frame list \<Rightarrow> (pmode \<times> frame list) option" where
  "close_object (FObj ms # st) = reduce (JObj ms) st"
| "close_object _ = None"

fun after_value :: "token \<Rightarrow> frame list \<Rightarrow> (pmode \<times> frame list) option" where
  "after_value TComma (FArr items # st) = Some (PValue, FArr items # st)"
| "after_value TRBracket (FArr items # st) = close_array (FArr items # st)"
| "after_value TComma (FObj ms # st) = Some (PKey, FObj ms # st)"
| "after_value TRBrace (FObj ms # st) = close_object (FObj ms # st)"
| "after_value _ _ = None"

fun step :: "pmode \<times> frame list \<Rightarrow> token \<Rightarrow> (pmode \<times> frame list) option" where
  "step (PValue, st) t = value_start t st"
| "step (PFirst, st) t = (if t = TRBracket then close_array st else value_start t st)"
| "step (PObjFirst, st) t = (if t = TRBrace then close_object st else key_start t st)"
| "step (PKey, st) t = key_start t st"
| "step (PColon, st) t = (if t = TColon then Some (PValue, st) else None)"
| "step (PAfter, st) t = after_value t st"
| "step (PDone v, st) t = None"

fun run :: "pmode \<times> frame list \<Rightarrow> token list \<Rightarrow> (pmode \<times> frame list) option" where
  "run s [] = Some s"
| "run s (t # ts) = (case step s t of None \<Rightarrow> None | Some s' \<Rightarrow> run s' ts)"

definition parse_tokens :: "token list \<Rightarrow> json option" where
  "parse_tokens ts =
     (case run (PValue, []) ts of
        Some (PDone v, []) \<Rightarrow> Some v
      | _ \<Rightarrow> None)"

text \<open>\<^verbatim>\<open>JSON.parse(text)\<close>: the value, or the \<^verbatim>\<open>SyntaxError\<close> it throws.\<close>

definition JSON_parse :: "string \<Rightarrow> js_error + json" where
  "JSON_parse text =
     (case tokenize text of
        None \<Rightarrow> Inl SyntaxError
      | Some ts \<Rightarrow> (case parse_tokens ts of None \<Rightarrow> Inl SyntaxError | Some v \<Rightarrow> Inr v))"


subsection \<open>Parsing what \<^verbatim>\<open>JSON.stringify\<close> printed\<close>

text \<open>
  \<^verbatim>\<open>JSON.parse\<close> returns every serializable value from the text that
  \<^verbatim>\<open>JSON.stringify\<close> prints for it. The proof follows the three layers of the parser:
  the digits of a number, the characters of a string, the tokens of a value.
\<close>

text \<open>
  Some numbers, as \<^verbatim>\<open>JSON.parse\<close> reads them and \<^verbatim>\<open>JSON.stringify\<close> prints them: literals
  of the same double are the same value, an integer beyond \<open>2^53\<close> is rounded, and the
  digits printed are the shortest that read back.
\<close>

lemma JSON_parse_numbers:
  "JSON_parse ''[1.0,1e0,100e-2,-0,-1.5E+3,0.5]''
     = Inr (JArr [JNum (Fin 1), JNum (Fin 1), JNum (Fin 1), JNum NegZero, JNum (Fin (- 1500)),
                  JNum (Fin (1 / 2))])"
  by code_simp

lemma JSON_stringify_numbers:
  "map_sum id JSON_stringify (JSON_parse ''[0.10,1e21,100000000000000000000,1e-7,0.000001,-0]'')
     = Inr ''[0.1,1e+21,100000000000000000000,1e-7,0.000001,0]''"
  "map_sum id JSON_stringify (JSON_parse ''[9007199254740993,0.30000000000000004]'')
     = Inr ''[9007199254740992,0.30000000000000004]''"
  by code_simp+

text \<open>
  First the numbers. A double is a multiple of \<open>2^-1074\<close>, so its decimal expansion ends and
  the search for its digits finds some that read back as the double.
\<close>

lemma pow_powi: "pow b e = of_int b powi e"
  by (simp add: pow_def power_int_def power_inverse divide_inverse)

lemma pow_add: "0 < b \<Longrightarrow> pow b (e + f) = pow b e * pow b f"
  by (simp add: pow_powi power_int_add)

lemma pow_pos: "0 < b \<Longrightarrow> 0 < pow b e"
  by (simp add: pow_def)

lemma pow_nonneg_exp: "0 \<le> e \<Longrightarrow> pow b e = of_int (b ^ nat e)"
  by (simp add: pow_def)

lemma pow_minus: "0 < b \<Longrightarrow> pow b (- e) = 1 / pow b e"
  by (simp add: pow_powi power_int_minus divide_inverse)

lemma round_double_form:
  assumes "round_double x = Fin x" and "x \<noteq> 0"
  shows "\<exists>m e. x = of_int m * pow 2 e \<and> - 1074 \<le> e"
proof -
  define e where "e = max (magnitude 2 x - 53) (- 1074)"
  define t where "t = x / pow 2 e"
  define m where "m = (if t - of_int \<lfloor>t\<rfloor> < 1 / 2 \<or> (t - of_int \<lfloor>t\<rfloor> = 1 / 2 \<and> even \<lfloor>t\<rfloor>) then \<lfloor>t\<rfloor> else \<lfloor>t\<rfloor> + 1)"
  from assms have "round_double x = (if 2 ^ 1024 \<le> \<lfloor>of_int m * pow 2 e :: rat\<rfloor> then Infinity else Fin (of_int m * pow 2 e))"
    unfolding round_double_def Let_def e_def t_def m_def by simp
  with assms(1) have "x = of_int m * pow 2 e"
    by (auto split: if_splits)
  moreover have "- 1074 \<le> e" by (simp add: e_def)
  ultimately show ?thesis by blast
qed

lemma dyadic_decimal:
  assumes "x = of_int m * pow 2 e" and "- 1074 \<le> e" and "1074 \<le> - p"
  shows "of_int \<lfloor>x / pow 10 p\<rfloor> * pow 10 p = x"
proof -
  define n where "n = nat (- p)"
  have p: "p = - int n" using assms(3) by (simp add: n_def)
  have en: "0 \<le> e + int n" using assms(2,3) n_def by linarith
  have "x / pow 10 p = x * pow 10 (int n)"
    using pow_minus[of 10 "int n"] by (simp add: p)
  also have "pow 10 (int n) = pow 2 (int n) * of_int (5 ^ n)"
    by (simp add: pow_def flip: power_mult_distrib)
  also have "x * (pow 2 (int n) * of_int (5 ^ n)) = of_int m * (pow 2 e * pow 2 (int n)) * of_int (5 ^ n)"
    by (simp add: assms(1))
  also have "pow 2 e * pow 2 (int n) = pow 2 (e + int n)"
    by (simp add: pow_add)
  also have "pow 2 (e + int n) = of_int (2 ^ nat (e + int n))"
    using en by (rule pow_nonneg_exp)
  finally have "x / pow 10 p = of_int (m * 2 ^ nat (e + int n) * 5 ^ n)"
    by simp
  then obtain j :: int where j: "x / pow 10 p = of_int j" by blast
  have nz: "pow 10 p \<noteq> 0" using pow_pos[of 10 p] by simp
  have "of_int \<lfloor>x / pow 10 p\<rfloor> * pow 10 p = (x / pow 10 p) * pow 10 p"
    by (simp only: j floor_of_int)
  also have "\<dots> = x" using nz by simp
  finally show ?thesis .
qed

lemma shortest_reads:
  assumes "round_double x = Fin x" and "0 < x"
  shows "reads x (fst (shortest x k)) (snd (shortest x k)) \<and> 0 \<le> fst (shortest x k)"
  using assms
proof (induction x k rule: shortest.induct)
  case (1 x k)
  define p where "p = magnitude 10 x - k"
  define lo where "lo = \<lfloor>x / pow 10 p\<rfloor>"
  have lo: "0 \<le> lo"
    using "1.prems"(2) pow_pos[of 10 p] by (simp add: lo_def)
  have last: "reads x lo p" if "1074 \<le> - p"
  proof -
    from "1.prems" obtain m e where "x = of_int m * pow 2 e" "- 1074 \<le> e"
      using round_double_form[of x] by auto
    from dyadic_decimal[OF this that] "1.prems"(1) show ?thesis
      by (simp add: reads_def lo_def)
  qed
  show ?case
  proof (cases "reads x lo p \<or> reads x (lo + 1) p \<or> 1074 \<le> - p")
    case True
    with last lo show ?thesis
      by (subst (1 2 3) shortest.simps) (auto simp: Let_def simp flip: p_def lo_def)
  next
    case False
    with "1.IH"[OF p_def lo_def refl] "1.prems" show ?thesis
      by (subst (1 2 3) shortest.simps) (auto simp: Let_def simp flip: p_def lo_def)
  qed
qed

lemma digit_char_props:
  assumes "d < 10"
  shows "is_digit (digit_char d)" and "(of_char (digit_char d) :: nat) = 48 + d"
    and "(of_char (digit_char d) :: int) = 48 + int d"
proof -
  from assms have "d \<in> {0, 1, 2, 3, 4, 5, 6, 7, 8, 9}" by auto
  then show "is_digit (digit_char d)" and "(of_char (digit_char d) :: nat) = 48 + d"
    and "(of_char (digit_char d) :: int) = 48 + int d"
    by (auto simp: digit_char_def is_digit_def)
qed

lemma digit_char_zero: "d < 10 \<Longrightarrow> digit_char d = CHR ''0'' \<longleftrightarrow> d = 0"
proof -
  assume "d < 10"
  then have "d \<in> {0, 1, 2, 3, 4, 5, 6, 7, 8, 9}" by auto
  then show ?thesis by (auto simp: digit_char_def)
qed

lemma decimal_digits: "list_all is_digit (decimal n)"
proof (induction n rule: decimal.induct)
  case (1 n)
  show ?case
  proof (cases "n < 10")
    case True
    then show ?thesis by (subst decimal.simps) (simp add: digit_char_props)
  next
    case False
    with 1 show ?thesis by (subst decimal.simps) (simp add: digit_char_props)
  qed
qed

lemma decimal_nonempty: "decimal n \<noteq> []"
  by (subst decimal.simps) simp

lemma read_nat_snoc: "read_nat (s @ [c]) = 10 * read_nat s + (of_char c - 48)"
  by (simp add: read_nat_def)

lemma read_decimal: "0 \<le> n \<Longrightarrow> read_nat (decimal n) = n"
proof (induction n rule: decimal.induct)
  case (1 n)
  show ?case
  proof (cases "n < 10")
    case True
    with "1.prems" show ?thesis
      by (subst decimal.simps) (simp add: read_nat_def digit_char_props)
  next
    case False
    then have "read_nat (decimal n) = 10 * read_nat (decimal (n div 10)) + n mod 10"
      by (subst decimal.simps) (simp add: read_nat_snoc digit_char_props)
    with 1 False show ?thesis by simp
  qed
qed

lemma decimal_hd: "0 \<le> n \<Longrightarrow> hd (decimal n) = CHR ''0'' \<Longrightarrow> n = 0"
proof (induction n rule: decimal.induct)
  case (1 n)
  show ?case
  proof (cases "n < 10")
    case True
    with "1.prems" show ?thesis
      by (subst (asm) decimal.simps) (simp add: digit_char_zero)
  next
    case False
    with "1.prems" have "hd (decimal (n div 10)) = CHR ''0''"
      by (subst (asm) decimal.simps) (simp add: decimal_nonempty)
    with 1 False have "n div 10 = 0" by simp
    with False "1.prems" show ?thesis by simp
  qed
qed

text \<open>
  What follows a number in the printed text: nothing, or one of \<^verbatim>\<open>,\<close>, \<^verbatim>\<open>]\<close> and \<^verbatim>\<open>}\<close>,
  so that the literal ends where the printer ended it.
\<close>

definition num_end :: "string \<Rightarrow> bool" where
  "num_end s = (case s of [] \<Rightarrow> True | c # cs \<Rightarrow> c = CHR '','' \<or> c = CHR '']'' \<or> c = CHR ''}'')"

lemma lex_frac_end: "num_end s \<Longrightarrow> lex_frac s = Some ([], s)"
  by (auto simp: lex_frac_def num_end_def split: list.splits)

lemma lex_exp_end: "num_end s \<Longrightarrow> lex_exp s = Some (0, s)"
  by (auto simp: lex_exp_def num_end_def split: list.splits)

text \<open>
  The lexer reads the digits back from each of the four layouts, with the decimal point
  and the exponent where \<^verbatim>\<open>toString\<close> put them.
\<close>

lemma strip_zeros_value:
  "of_int (fst (strip_zeros s p)) * pow 10 (snd (strip_zeros s p)) = of_int s * pow 10 p"
proof (induction s p rule: strip_zeros.induct)
  case (1 s p)
  show ?case
  proof (cases "s \<noteq> 0 \<and> s mod 10 = 0")
    case False
    then show ?thesis by (subst (1 2) strip_zeros.simps) auto
  next
    case True
    then have s: "s = 10 * (s div 10)" by presburger
    have "of_int (fst (strip_zeros s p)) * pow 10 (snd (strip_zeros s p))
      = of_int (s div 10) * pow 10 (p + 1)"
      using True 1 by (subst (1 2) strip_zeros.simps) simp
    also have "pow 10 (p + 1) = pow 10 p * pow 10 1"
      by (rule pow_add) simp
    also have "pow 10 1 = 10"
      by (simp add: pow_def)
    finally have "of_int (fst (strip_zeros s p)) * pow 10 (snd (strip_zeros s p))
      = of_int (10 * (s div 10)) * pow 10 p"
      by simp
    with s show ?thesis by simp
  qed
qed

lemma strip_zeros_pos: "0 < s \<Longrightarrow> 0 < fst (strip_zeros s p)"
proof (induction s p rule: strip_zeros.induct)
  case (1 s p)
  show ?case
  proof (cases "s \<noteq> 0 \<and> s mod 10 = 0")
    case False
    with "1.prems" show ?thesis by (subst strip_zeros.simps) auto
  next
    case True
    with "1.prems" have "0 < s div 10" by presburger
    with True 1 show ?thesis by (subst strip_zeros.simps) simp
  qed
qed



lemma digits_then:
  assumes "list_all is_digit ds" and "takeWhile is_digit r = []"
  shows "takeWhile is_digit (ds @ r) = ds" and "dropWhile is_digit (ds @ r) = r"
proof -
  from assms(1) have all: "\<And>x. x \<in> set ds \<Longrightarrow> is_digit x"
    by (simp add: list_all_iff)
  from assms(2) have r: "dropWhile is_digit r = r"
    by (metis append_Nil takeWhile_dropWhile_id)
  from all assms(2) show "takeWhile is_digit (ds @ r) = ds"
    by (simp add: takeWhile_append2)
  from all r show "dropWhile is_digit (ds @ r) = r"
    by (simp add: dropWhile_append2)
qed

lemma num_end_stop: "num_end r \<Longrightarrow> takeWhile is_digit r = []"
  by (auto simp: num_end_def is_digit_def split: list.splits)

lemma read_nat_append: "read_nat (a @ b) = read_nat a * 10 ^ length b + read_nat b"
proof (induction b rule: rev_induct)
  case Nil
  show ?case by (simp add: read_nat_def)
next
  case (snoc c b)
  have "read_nat (a @ b @ [c]) = 10 * read_nat (a @ b) + (of_char c - 48)"
    using read_nat_snoc[of "a @ b" c] by simp
  with snoc show ?case by (simp add: read_nat_snoc algebra_simps)
qed

lemma read_nat_zeros: "read_nat (replicate j CHR ''0'') = 0"
  by (induction j) (simp_all add: read_nat_def)

lemma read_nat_zeros_then: "read_nat (replicate j CHR ''0'' @ b) = read_nat b"
  by (simp add: read_nat_append read_nat_zeros)

lemma lex_number_parts:
  assumes "list_all is_digit ip" and "ip \<noteq> []" and "hd ip = CHR ''0'' \<longrightarrow> tl ip = []"
    and "takeWhile is_digit r1 = []"
    and "lex_frac r1 = Some (fp, r2)" and "lex_exp r2 = Some (ex, r)"
  shows "lex_number (ip @ r1) = Some (number_of_parts False ip fp ex, r)"
    and "lex_number (CHR ''-'' # ip @ r1) = Some (number_of_parts True ip fp ex, r)"
proof -
  from assms(1,2) have "is_digit (hd ip)" by (cases ip) auto
  then have "hd ip \<noteq> CHR ''-''" by (auto simp: is_digit_def)
  with assms(2) have plus: "lex_minus (ip @ r1) = ([], ip @ r1)"
    by (cases ip) (auto simp: lex_minus_def)
  have minus: "lex_minus (CHR ''-'' # ip @ r1) = (''-'', ip @ r1)"
    by (simp add: lex_minus_def)
  note dt = digits_then[OF assms(1,4)]
  from plus assms(2,3,5,6) show "lex_number (ip @ r1) = Some (number_of_parts False ip fp ex, r)"
    by (simp add: lex_number_def Let_def dt)
  from minus assms(2,3,5,6) show "lex_number (CHR ''-'' # ip @ r1) = Some (number_of_parts True ip fp ex, r)"
    by (simp add: lex_number_def Let_def dt)
qed

lemma lex_frac_dot:
  assumes "list_all is_digit fp" and "fp \<noteq> []" and "takeWhile is_digit r = []"
  shows "lex_frac (CHR ''.'' # fp @ r) = Some (fp, r)"
  using assms digits_then[OF assms(1,3)] by (simp add: lex_frac_def)

lemma lex_frac_e: "lex_frac (CHR ''e'' # r) = Some ([], CHR ''e'' # r)"
  by (simp add: lex_frac_def)

lemma lex_exp_e:
  assumes "takeWhile is_digit r = []"
    and "0 \<le> j"
  shows "lex_exp (CHR ''e'' # CHR ''+'' # decimal j @ r) = Some (j, r)"
    and "lex_exp (CHR ''e'' # CHR ''-'' # decimal j @ r) = Some (- j, r)"
  using digits_then[OF decimal_digits assms(1), of j] decimal_nonempty[of j] assms(2)
  by (simp_all add: lex_exp_def lex_sign_def read_decimal)

lemma parts_value:
  assumes "read_nat (ip @ fp) = s * 10 ^ j" and "ex - int (length fp) + int j = q"
  shows "number_of_parts neg ip fp ex
    = (if neg then negate (round_double (of_int s * pow 10 q)) else round_double (of_int s * pow 10 q))"
proof -
  have "pow 10 q = pow 10 (int j) * pow 10 (ex - int (length fp))"
    using pow_add[of 10 "int j" "ex - int (length fp)"] assms(2) by (simp add: add.commute)
  also have "pow 10 (int j) = 10 ^ j" by (simp add: pow_def)
  finally have "of_int (read_nat (ip @ fp)) * pow 10 (ex - int (length fp)) = of_int s * pow 10 q"
    by (simp add: assms(1))
  then show ?thesis by (simp add: number_of_parts_def)
qed


lemma lex_number_layout:
  fixes s :: int and n :: int and r :: string
  assumes "0 < s" and "num_end r"
  defines "ds \<equiv> decimal s"
  defines "v \<equiv> round_double (of_int s * pow 10 (n - int (length ds)))"
  shows "lex_number (layout ds n @ r) = Some (v, r)"
    and "lex_number (CHR ''-'' # layout ds n @ r) = Some (negate v, r)"
proof -
  define k where "k = int (length ds)"
  have digits: "list_all is_digit ds" and ne: "ds \<noteq> []"
    by (simp_all add: ds_def decimal_digits decimal_nonempty)
  have val: "read_nat ds = s" and lead: "hd ds \<noteq> CHR ''0''"
    using assms(1) read_decimal[of s] decimal_hd[of s] by (auto simp: ds_def)
  have k: "0 < k" using ne by (simp add: k_def)
  note stop = num_end_stop[OF assms(2)]
  have zero: "is_digit CHR ''0''" by (simp add: is_digit_def)
  have both: "lex_number (layout ds n @ r) = Some (v, r)
      \<and> lex_number (CHR ''-'' # layout ds n @ r) = Some (negate v, r)"
    if shape: "layout ds n @ r = ip @ r1"
      and ip: "list_all is_digit ip" "ip \<noteq> []" "hd ip = CHR ''0'' \<longrightarrow> tl ip = []"
      and r1: "takeWhile is_digit r1 = []" "lex_frac r1 = Some (fp, r2)" "lex_exp r2 = Some (ex, r)"
      and rd: "read_nat (ip @ fp) = s * 10 ^ j" "ex - int (length fp) + int j = n - k"
    for ip r1 fp r2 ex j
  proof -
    from parts_value[OF rd] have "number_of_parts False ip fp ex = v"
      "number_of_parts True ip fp ex = negate v"
      by (simp_all add: v_def k_def)
    with lex_number_parts[OF ip r1] shape show ?thesis by simp
  qed
  consider (int) "k \<le> n" "n \<le> 21" | (point) "0 < n" "n < k" "n \<le> 21"
    | (small) "- 6 < n" "n \<le> 0" | (exp) "21 < n \<or> n \<le> - 6"
    by linarith
  then have "lex_number (layout ds n @ r) = Some (v, r)
      \<and> lex_number (CHR ''-'' # layout ds n @ r) = Some (negate v, r)"
  proof cases
    case int
    define j where "j = nat (n - k)"
    show ?thesis
    proof (rule both[where ip = "ds @ replicate j CHR ''0''" and ?r1.0 = r and fp = "[]" and ?r2.0 = r
          and ex = 0 and j = j])
      show "layout ds n @ r = (ds @ replicate j CHR ''0'') @ r"
        using int by (simp add: layout_def Let_def j_def k_def)
      show "list_all is_digit (ds @ replicate j CHR ''0'')"
        using digits zero by (auto simp: list_all_iff)
      show "ds @ replicate j CHR ''0'' \<noteq> []" using ne by simp
      show "hd (ds @ replicate j CHR ''0'') = CHR ''0'' \<longrightarrow> tl (ds @ replicate j CHR ''0'') = []"
        using ne lead by simp
      show "takeWhile is_digit r = []" by (rule stop)
      show "lex_frac r = Some ([], r)" by (rule lex_frac_end[OF assms(2)])
      show "lex_exp r = Some (0, r)" by (rule lex_exp_end[OF assms(2)])
      show "read_nat ((ds @ replicate j CHR ''0'') @ []) = s * 10 ^ j"
        by (simp add: read_nat_append read_nat_zeros val)
      show "0 - int (length ([] :: string)) + int j = n - k"
        using int by (simp add: j_def)
    qed
  next
    case point
    define i where "i = nat n"
    have i: "0 < i" "i < length ds" using point by (simp_all add: i_def k_def)
    show ?thesis
    proof (rule both[where ip = "take i ds" and ?r1.0 = "CHR ''.'' # drop i ds @ r"
          and fp = "drop i ds" and ?r2.0 = r and ex = 0 and j = 0])
      show "layout ds n @ r = take i ds @ CHR ''.'' # drop i ds @ r"
        using point by (simp add: layout_def Let_def i_def k_def)
      show "list_all is_digit (take i ds)"
        using digits by (auto simp: list_all_iff dest: in_set_takeD)
      show "take i ds \<noteq> []" using i ne by simp
      show "hd (take i ds) = CHR ''0'' \<longrightarrow> tl (take i ds) = []"
        using i lead by (simp add: hd_take)
      show "takeWhile is_digit (CHR ''.'' # drop i ds @ r) = []"
        by (simp add: is_digit_def)
      show "lex_frac (CHR ''.'' # drop i ds @ r) = Some (drop i ds, r)"
      proof (rule lex_frac_dot[OF _ _ stop])
        show "list_all is_digit (drop i ds)"
          using digits by (auto simp: list_all_iff dest: in_set_dropD)
        show "drop i ds \<noteq> []" using i by simp
      qed
      show "lex_exp r = Some (0, r)" by (rule lex_exp_end[OF assms(2)])
      show "read_nat (take i ds @ drop i ds) = s * 10 ^ 0" by (simp add: val)
      show "0 - int (length (drop i ds)) + int 0 = n - k"
        using point by (simp add: i_def k_def)
    qed
  next
    case small
    define j where "j = nat (- n)"
    show ?thesis
    proof (rule both[where ip = "''0''" and ?r1.0 = "CHR ''.'' # replicate j CHR ''0'' @ ds @ r"
          and fp = "replicate j CHR ''0'' @ ds" and ?r2.0 = r and ex = 0 and j = 0])
      show "layout ds n @ r = ''0'' @ CHR ''.'' # replicate j CHR ''0'' @ ds @ r"
        using small k by (simp add: layout_def Let_def j_def flip: k_def)
      show "list_all is_digit ''0''" using zero by simp
      show "''0'' \<noteq> []" by simp
      show "hd ''0'' = CHR ''0'' \<longrightarrow> tl ''0'' = []" by simp
      show "takeWhile is_digit (CHR ''.'' # replicate j CHR ''0'' @ ds @ r) = []"
        by (simp add: is_digit_def)
      show "lex_frac (CHR ''.'' # replicate j CHR ''0'' @ ds @ r) = Some (replicate j CHR ''0'' @ ds, r)"
      proof -
        have "list_all is_digit (replicate j CHR ''0'' @ ds)"
          using digits zero by (auto simp: list_all_iff)
        moreover have "replicate j CHR ''0'' @ ds \<noteq> []" using ne by simp
        ultimately show ?thesis
          using lex_frac_dot[OF _ _ stop, of "replicate j CHR ''0'' @ ds"] by simp
      qed
      show "lex_exp r = Some (0, r)" by (rule lex_exp_end[OF assms(2)])
      show "read_nat (''0'' @ replicate j CHR ''0'' @ ds) = s * 10 ^ 0"
        using read_nat_zeros_then[of "Suc j" ds] by (simp add: val)
      show "0 - int (length (replicate j CHR ''0'' @ ds)) + int 0 = n - k"
        using small by (simp add: j_def k_def)
    qed
  next
    case exp
    define e where "e = \<bar>n - 1\<bar>"
    define sg where "sg = (if n - 1 < 0 then CHR ''-'' else CHR ''+'')"
    define tail where "tail = CHR ''e'' # sg # decimal e @ r"
    have ex: "lex_exp tail = Some (n - 1, r)"
      using lex_exp_e[OF stop, of e] by (auto simp: tail_def sg_def e_def)
    have ds: "ds = hd ds # tl ds" using ne by simp
    have hd: "list_all is_digit [hd ds]" using digits ne by (cases ds) auto
    show ?thesis
    proof (cases "tl ds = []")
      case True
      then have one: "k = 1" using ds by (metis k_def length_Cons list.size(3) of_nat_1 One_nat_def)
      show ?thesis
      proof (rule both[where ip = "[hd ds]" and ?r1.0 = tail and fp = "[]" and ?r2.0 = tail
            and ex = "n - 1" and j = 0])
        show "layout ds n @ r = [hd ds] @ tail"
          using exp k True ds one
          by (auto simp: layout_def Let_def tail_def sg_def e_def simp flip: k_def)
        show "list_all is_digit [hd ds]" by (rule hd)
        show "[hd ds] \<noteq> []" by simp
        show "hd [hd ds] = CHR ''0'' \<longrightarrow> tl [hd ds] = []" by simp
        show "takeWhile is_digit tail = []" by (simp add: tail_def is_digit_def)
        show "lex_frac tail = Some ([], tail)" by (simp add: tail_def lex_frac_e)
        show "lex_exp tail = Some (n - 1, r)" by (rule ex)
        show "read_nat ([hd ds] @ []) = s * 10 ^ 0"
          using True ds val by simp
        show "n - 1 - int (length ([] :: string)) + int 0 = n - k"
          using one by simp
      qed
    next
      case False
      show ?thesis
      proof (rule both[where ip = "[hd ds]" and ?r1.0 = "CHR ''.'' # tl ds @ tail" and fp = "tl ds"
            and ?r2.0 = tail and ex = "n - 1" and j = 0])
        show "layout ds n @ r = [hd ds] @ CHR ''.'' # tl ds @ tail"
          using exp k False
          by (auto simp: layout_def Let_def tail_def sg_def e_def simp flip: k_def)
        show "list_all is_digit [hd ds]" by (rule hd)
        show "[hd ds] \<noteq> []" by simp
        show "hd [hd ds] = CHR ''0'' \<longrightarrow> tl [hd ds] = []" by simp
        show "takeWhile is_digit (CHR ''.'' # tl ds @ tail) = []" by (simp add: is_digit_def)
        show "lex_frac (CHR ''.'' # tl ds @ tail) = Some (tl ds, tail)"
        proof (rule lex_frac_dot)
          show "list_all is_digit (tl ds)"
            using digits ne by (cases ds) auto
          show "tl ds \<noteq> []" by (rule False)
          show "takeWhile is_digit tail = []" by (simp add: tail_def is_digit_def)
        qed
        show "lex_exp tail = Some (n - 1, r)" by (rule ex)
        show "read_nat ([hd ds] @ tl ds) = s * 10 ^ 0"
          using ds val by simp
        show "n - 1 - int (length (tl ds)) + int 0 = n - k"
          using ne by (cases ds) (simp_all add: k_def)
      qed
    qed
  qed
  then show "lex_number (layout ds n @ r) = Some (v, r)"
    and "lex_number (CHR ''-'' # layout ds n @ r) = Some (negate v, r)"
    by simp_all
qed


lemma lex_number_digits_of:
  assumes "round_double x = Fin x" and "0 < x" and "num_end r"
  shows "lex_number (digits_of x @ r) = Some (Fin x, r)"
    and "lex_number (CHR ''-'' # digits_of x @ r) = Some (Fin (- x), r)"
proof -
  obtain s p where sp: "shortest x 1 = (s, p)" by (cases "shortest x 1") auto
  obtain s' p' where sp': "strip_zeros s p = (s', p')" by (cases "strip_zeros s p") auto
  from shortest_reads[OF assms(1,2), of 1] sp have rd: "reads x s p" and "0 \<le> s" by simp_all
  from rd assms(2) have "s \<noteq> 0" by (auto simp: reads_def round_double_def)
  with \<open>0 \<le> s\<close> have "0 < s" by simp
  with strip_zeros_pos[of s p] sp' have pos: "0 < s'" by simp
  from strip_zeros_value[of s p] sp' have "of_int s' * pow 10 p' = of_int s * pow 10 p" by simp
  with rd have v: "round_double (of_int s' * pow 10 p') = Fin x" by (simp add: reads_def)
  have shape: "digits_of x = layout (decimal s') (p' + int (length (decimal s')))"
    by (simp add: digits_of_def sp sp')
  from lex_number_layout[OF pos assms(3), of "p' + int (length (decimal s'))"] v assms(2)
  show "lex_number (digits_of x @ r) = Some (Fin x, r)"
    and "lex_number (CHR ''-'' # digits_of x @ r) = Some (Fin (- x), r)"
    by (simp_all add: shape negate_def)
qed

lemma lex_number_toString:
  assumes "is_double q" and "num_end r"
  shows "lex_number (Number_toString (Fin q) @ r) = Some (Fin q, r)"
proof -
  consider "q = 0" | "0 < q" | "q < 0" by linarith
  then show ?thesis
  proof cases
    case 1
    have "lex_number (''0'' @ r) = Some (number_of_parts False ''0'' [] 0, r)"
      by (rule lex_number_parts(1)[where ?r2.0 = r])
        (simp_all add: is_digit_def num_end_stop lex_frac_end lex_exp_end assms(2))
    with 1 show ?thesis
      by (simp add: Number_toString_def number_of_parts_def round_double_def read_nat_def)
  next
    case 2
    with assms(1) have "round_double q = Fin q" by (simp add: is_double_def)
    from lex_number_digits_of(1)[OF this 2 assms(2)] 2 show ?thesis
      by (simp add: Number_toString_def)
  next
    case 3
    with assms(1) have "round_double (- q) = Fin (- q)" by (simp add: is_double_def)
    from lex_number_digits_of(2)[OF this _ assms(2)] 3 show ?thesis
      by (simp add: Number_toString_def)
  qed
qed

lemma lex_number_first:
  assumes "lex_number t = Some y"
  shows "\<exists>c cs. t = c # cs \<and> (c = CHR ''-'' \<or> is_digit c)"
proof (cases t)
  case Nil
  with assms show ?thesis by (simp add: lex_number_def lex_minus_def)
next
  case (Cons c cs)
  show ?thesis
  proof (cases "c = CHR ''-''")
    case True
    with Cons show ?thesis by simp
  next
    case False
    with assms Cons have "takeWhile is_digit (c # cs) \<noteq> []"
      by (auto simp: lex_number_def lex_minus_def Let_def split: if_splits)
    then have "is_digit c" by (auto split: if_splits)
    with Cons show ?thesis by simp
  qed
qed

text \<open>
  What the lexer reads back for a character of a printed string: the code unit of the
  \<^verbatim>\<open>\u00XX\<close> escape for a control character without a short escape, the character
  itself otherwise.
\<close>

definition piece_of :: "char \<Rightarrow> piece" where
  "piece_of c =
     (if (of_char c :: nat) < 32 \<and> c \<noteq> CHR 0x08 \<and> c \<noteq> CHR 0x0C \<and> c \<noteq> CHR 0x0A
         \<and> c \<noteq> CHR 0x0D \<and> c \<noteq> CHR 0x09
      then Unit (of_char c) else Byte c)"

lemma hex_char_props:
  assumes "d < 16"
  shows "is_hex (hex_char d)" and "hex_val (hex_char d) = d"
proof -
  from assms have "d = 0 \<or> d = 1 \<or> d = 2 \<or> d = 3 \<or> d = 4 \<or> d = 5 \<or> d = 6 \<or> d = 7
    \<or> d = 8 \<or> d = 9 \<or> d = 10 \<or> d = 11 \<or> d = 12 \<or> d = 13 \<or> d = 14 \<or> d = 15"
    by presburger
  then show "is_hex (hex_char d)" and "hex_val (hex_char d) = d"
    by (auto simp: hex_char_def is_hex_def hex_val_def is_digit_def)
qed

lemma hex_zero: "is_hex (CHR ''0'')" "hex_val (CHR ''0'') = 0"
  by (simp_all add: is_hex_def hex_val_def is_digit_def)

lemma lex_string_control:
  assumes "n < 32"
  shows "lex_string (CHR 0x5C # CHR ''u'' # CHR ''0'' # CHR ''0'' # hex_char (n div 16) # hex_char (n mod 16) # r)
    = push_piece (Unit n) (lex_string r)"
proof -
  from assms have "n div 16 < 16" "n mod 16 < 16" by auto
  then have "is_hex (hex_char (n div 16))" "is_hex (hex_char (n mod 16))"
    "hex_val (hex_char (n div 16)) = n div 16" "hex_val (hex_char (n mod 16)) = n mod 16"
    by (simp_all add: hex_char_props)
  then show ?thesis by (simp add: hex_zero)
qed

lemma lex_string_escape:
  "lex_string (escape_char c @ r) = push_piece (piece_of c) (lex_string r)"
proof (cases "c = CHR 0x22 \<or> c = CHR 0x5C \<or> c = CHR 0x08 \<or> c = CHR 0x0C \<or> c = CHR 0x0A
    \<or> c = CHR 0x0D \<or> c = CHR 0x09")
  case True
  then show ?thesis
    by (auto simp: escape_char_def piece_of_def simple_escape_def)
next
  case False
  show ?thesis
  proof (cases "(of_char c :: nat) < 32")
    case True
    with False lex_string_control[OF True, of r] show ?thesis
      by (simp add: escape_char_def piece_of_def)
  next
    case ge: False
    with False show ?thesis
      by (simp add: escape_char_def piece_of_def)
  qed
qed

lemma lex_string_quote:
  "lex_string (concat (map escape_char s) @ CHR 0x22 # r) = Some (map piece_of s, r)"
proof (induction s)
  case Nil
  show ?case by simp
next
  case (Cons c s)
  have "lex_string (concat (map escape_char (c # s)) @ CHR 0x22 # r)
    = lex_string (escape_char c @ (concat (map escape_char s) @ CHR 0x22 # r))"
    by simp
  also have "\<dots> = push_piece (piece_of c) (lex_string (concat (map escape_char s) @ CHR 0x22 # r))"
    by (rule lex_string_escape)
  finally show ?case using Cons by (simp add: push_piece_def)
qed

lemma utf8_of_pieces_low:
  "u < 55296 \<Longrightarrow> utf8_of_pieces (Unit u # ps) = utf8 u @ utf8_of_pieces ps"
proof (cases ps)
  case Nil
  then show ?thesis by simp
next
  case (Cons p qs)
  assume "u < 55296"
  with Cons show ?thesis by (cases p) simp_all
qed

lemma utf8_of_pieces_of: "utf8_of_pieces (map piece_of s) = s"
proof (induction s)
  case Nil
  show ?case by simp
next
  case (Cons c s)
  then show ?case
    by (simp add: piece_of_def utf8_of_pieces_low utf8_def)
qed

text \<open>The tokens of the printed text of a value.\<close>

fun tokens_of :: "json \<Rightarrow> token list" where
  "tokens_of (JStr s) = [TString s]"
| "tokens_of (JArr xs) = TLBracket # join [TComma] (map tokens_of xs) @ [TRBracket]"
| "tokens_of (JObj kvs) =
     TLBrace # join [TComma] (map (\<lambda>(k, v). TString k # TColon # tokens_of v) kvs) @ [TRBrace]"
| "tokens_of v = [TScalar v]"

text \<open>Several tokens put in front of what the lexer returns for the rest of the text.\<close>

definition push_tokens :: "token list \<Rightarrow> token list option \<Rightarrow> token list option" where
  "push_tokens ts r = (case r of None \<Rightarrow> None | Some us \<Rightarrow> Some (ts @ us))"

lemma push_tokens_simps:
  "push_token t (push_tokens ts r) = push_tokens (t # ts) r"
  "push_tokens ts (push_token t r) = push_tokens (ts @ [t]) r"
  "push_tokens ts (push_tokens us r) = push_tokens (ts @ us) r"
  "push_token t r = push_tokens [t] r"
  by (cases r; simp add: push_token_def push_tokens_def)+

lemma lex_punct:
  "tokenize (CHR ''{'' # s) = push_tokens [TLBrace] (tokenize s)"
  "tokenize (CHR ''}'' # s) = push_tokens [TRBrace] (tokenize s)"
  "tokenize (CHR ''['' # s) = push_tokens [TLBracket] (tokenize s)"
  "tokenize (CHR '']'' # s) = push_tokens [TRBracket] (tokenize s)"
  "tokenize (CHR '':'' # s) = push_tokens [TColon] (tokenize s)"
  "tokenize (CHR '','' # s) = push_tokens [TComma] (tokenize s)"
  by (simp_all add: tokenize.simps is_ws_def push_tokens_simps(4))

lemma lex_literals:
  "tokenize (''null'' @ s) = push_tokens [TScalar JNull] (tokenize s)"
  "tokenize (''true'' @ s) = push_tokens [TScalar (JBool True)] (tokenize s)"
  "tokenize (''false'' @ s) = push_tokens [TScalar (JBool False)] (tokenize s)"
  by (simp_all add: tokenize.simps is_ws_def is_digit_def push_tokens_simps(4))

lemma lex_quote: "tokenize (quote k @ s) = push_tokens [TString k] (tokenize s)"
  by (simp add: tokenize.simps quote_def is_ws_def lex_string_quote utf8_of_pieces_of push_tokens_simps(4))

lemma lex_number_start:
  assumes "c = CHR ''-'' \<or> is_digit c"
  shows "tokenize (c # cs) =
    (case lex_number (c # cs) of
       None \<Rightarrow> None
     | Some (x, rest) \<Rightarrow> push_token (TScalar (JNum x)) (tokenize rest))"
proof -
  from assms have "\<not> is_ws c" "c \<noteq> CHR ''{''" "c \<noteq> CHR ''}''" "c \<noteq> CHR ''[''" "c \<noteq> CHR '']''"
    "c \<noteq> CHR '':''" "c \<noteq> CHR '',''" "c \<noteq> CHR 0x22"
    by (auto simp: is_ws_def is_digit_def)
  with assms show ?thesis by (simp add: tokenize.simps(2)[of c cs])
qed

lemma lex_number_token:
  assumes "is_double q" and "num_end s"
  shows "tokenize (Number_toString (Fin q) @ s) = push_tokens [TScalar (JNum (Fin q))] (tokenize s)"
proof -
  note read = lex_number_toString[OF assms]
  from lex_number_first[OF read] obtain c cs where
    c: "Number_toString (Fin q) @ s = c # cs" "c = CHR ''-'' \<or> is_digit c"
    by blast
  from lex_number_start[OF c(2), of cs] read show ?thesis
    by (simp add: c(1) push_tokens_simps(4))
qed

lemma num_end_simps: "num_end []" "num_end (CHR '','' # s)" "num_end (CHR '']'' # s)"
  "num_end (CHR ''}'' # s)"
  by (simp_all add: num_end_def)

lemma lex_join:
  assumes "\<And>x s. x \<in> set xs \<Longrightarrow> num_end s \<Longrightarrow> tokenize (f x @ s) = push_tokens (g x) (tokenize s)"
    and "num_end (c # s)"
  shows "tokenize (join '','' (map f xs) @ c # s) = push_tokens (join [TComma] (map g xs)) (tokenize (c # s))"
  using assms
proof (induction xs rule: induct_list012)
  case 1
  show ?case by (cases "tokenize (c # s)") (simp_all add: push_tokens_def)
next
  case (2 x)
  then show ?case by simp
next
  case (3 x y zs)
  have "tokenize (join '','' (map f (x # y # zs)) @ c # s)
    = tokenize (f x @ CHR '','' # (join '','' (map f (y # zs)) @ c # s))"
    by simp
  also have "\<dots> = push_tokens (g x) (tokenize (CHR '','' # (join '','' (map f (y # zs)) @ c # s)))"
    using "3.prems"(1) by (simp add: num_end_simps)
  also have "tokenize (CHR '','' # (join '','' (map f (y # zs)) @ c # s))
    = push_tokens [TComma] (tokenize (join '','' (map f (y # zs)) @ c # s))"
    by (rule lex_punct)
  also have "tokenize (join '','' (map f (y # zs)) @ c # s)
    = push_tokens (join [TComma] (map g (y # zs))) (tokenize (c # s))"
    using "3.IH"(2) "3.prems" by simp
  finally show ?case by (simp add: push_tokens_simps)
qed

lemma lex_stringify:
  "serializable v \<Longrightarrow> num_end s \<Longrightarrow> tokenize (JSON_stringify v @ s) = push_tokens (tokens_of v) (tokenize s)"
proof (induction v arbitrary: s)
  case JNull
  show ?case using lex_literals(1)[of s] by simp
next
  case (JBool b)
  show ?case using lex_literals(2,3)[of s] by (cases b) simp_all
next
  case (JNum x)
  then obtain q where "x = Fin q" "is_double q" by (cases x) auto
  with JNum show ?case by (simp add: lex_number_token)
next
  case (JStr t)
  show ?case by (simp add: lex_quote)
next
  case (JArr xs)
  have "tokenize (join '','' (map JSON_stringify xs) @ CHR '']'' # s)
    = push_tokens (join [TComma] (map tokens_of xs)) (tokenize (CHR '']'' # s))"
    using JArr by (intro lex_join) (simp_all add: num_end_simps)
  then show ?case by (simp add: lex_punct push_tokens_simps)
next
  case (JObj kvs)
  have member: "tokenize ((\<lambda>(k, v). quote k @ '':'' @ JSON_stringify v) kv @ r)
      = push_tokens ((\<lambda>(k, v). TString k # TColon # tokens_of v) kv) (tokenize r)"
    if "kv \<in> set kvs" and "num_end r" for kv r
  proof -
    obtain k v where kv: "kv = (k, v)" by (cases kv)
    with that JObj.prems have "serializable v" by auto
    moreover from kv that have "v \<in> Basic_BNFs.snds kv" by simp
    ultimately have "tokenize (JSON_stringify v @ r) = push_tokens (tokens_of v) (tokenize r)"
      using JObj.IH that by blast
    then show ?thesis
      using lex_quote[of k "CHR '':'' # JSON_stringify v @ r"]
      by (simp add: kv lex_punct push_tokens_simps)
  qed
  have "tokenize (join '','' (map (\<lambda>(k, v). quote k @ '':'' @ JSON_stringify v) kvs) @ CHR ''}'' # s)
    = push_tokens (join [TComma] (map (\<lambda>(k, v). TString k # TColon # tokens_of v) kvs)) (tokenize (CHR ''}'' # s))"
    using member by (intro lex_join) (simp_all add: num_end_simps)
  then show ?case by (simp add: lex_punct push_tokens_simps)
qed

lemma run_append:
  "run s (ts @ us) = (case run s ts of None \<Rightarrow> None | Some s' \<Rightarrow> run s' us)"
  by (induction ts arbitrary: s) (auto split: option.splits)

lemma tokens_of_first: "\<exists>t ts. tokens_of v = t # ts \<and> t \<noteq> TRBracket"
  by (cases v) auto

lemma run_first: "run (PFirst, st) (tokens_of v) = run (PValue, st) (tokens_of v)"
proof -
  from tokens_of_first obtain t ts where "tokens_of v = t # ts" "t \<noteq> TRBracket" by blast
  then show ?thesis by simp
qed

lemma run_elements:
  assumes "\<And>x st. x \<in> set xs \<Longrightarrow> run (PValue, st) (tokens_of x) = reduce x st"
    and "xs \<noteq> []" and "m = PValue \<or> m = PFirst"
  shows "run (m, FArr acc # st) (join [TComma] (map tokens_of xs)) = Some (PAfter, FArr (acc @ xs) # st)"
  using assms
proof (induction xs arbitrary: acc m rule: induct_list012)
  case 1
  then show ?case by simp
next
  case (2 x)
  then show ?case by (auto simp: run_first)
next
  case (3 x y zs)
  have "run (m, FArr acc # st) (tokens_of x) = Some (PAfter, FArr (acc @ [x]) # st)"
    using "3.prems" by (auto simp: run_first)
  moreover have "run (PValue, FArr (acc @ [x]) # st) (join [TComma] (map tokens_of (y # zs)))
    = Some (PAfter, FArr ((acc @ [x]) @ y # zs) # st)"
    using "3.prems" by (intro "3.IH"(2)) simp_all
  ultimately show ?case by (simp add: run_append)
qed

lemma set_prop_fresh: "k \<notin> fst ` set ms \<Longrightarrow> set_prop ms k v = ms @ [(k, v)]"
  by (induction ms) auto

lemma run_done: "(case r of None \<Rightarrow> None | Some s' \<Rightarrow> run s' []) = r"
  by (cases r) simp_all

lemma run_members:
  assumes "\<forall>kv \<in> set kvs. \<forall>st. run (PValue, st) (tokens_of (snd kv)) = reduce (snd kv) st"
    and "kvs \<noteq> []" and "m = PObjFirst \<or> m = PKey" and "distinct (map fst (acc @ kvs))"
  shows "run (m, FObj acc # st) (join [TComma] (map (\<lambda>(k, v). TString k # TColon # tokens_of v) kvs))
    = Some (PAfter, FObj (acc @ kvs) # st)"
  using assms
proof (induction kvs arbitrary: acc m rule: induct_list012)
  case 1
  then show ?case by simp
next
  case (2 kv)
  obtain k v where kv: "kv = (k, v)" by (cases kv)
  with "2.prems" have "k \<notin> fst ` set acc" by auto
  with "2.prems" kv show ?case by (auto simp: set_prop_fresh)
next
  case (3 kv y zs)
  obtain k v where kv: "kv = (k, v)" by (cases kv)
  with "3.prems" have fresh: "k \<notin> fst ` set acc" by auto
  have "run (PValue, FKey acc k # st) (tokens_of v) = reduce v (FKey acc k # st)"
    using "3.prems"(1) kv by simp
  then have first: "run (m, FObj acc # st) (TString k # TColon # tokens_of v)
      = Some (PAfter, FObj (acc @ [kv]) # st)"
    using "3.prems"(3) kv fresh by (auto simp: set_prop_fresh)
  have rest: "run (PKey, FObj (acc @ [kv]) # st)
      (join [TComma] (map (\<lambda>(k, v). TString k # TColon # tokens_of v) (y # zs)))
    = Some (PAfter, FObj ((acc @ [kv]) @ y # zs) # st)"
    using "3.prems" by (intro "3.IH"(2)) simp_all
  have split: "join [TComma] (map (\<lambda>(k, v). TString k # TColon # tokens_of v) (kv # y # zs))
    = (TString k # TColon # tokens_of v)
      @ TComma # join [TComma] (map (\<lambda>(k, v). TString k # TColon # tokens_of v) (y # zs))"
    by (simp add: kv)
  have "run (m, FObj acc # st) (join [TComma] (map (\<lambda>(k, v). TString k # TColon # tokens_of v) (kv # y # zs)))
    = run (PAfter, FObj (acc @ [kv]) # st)
        (TComma # join [TComma] (map (\<lambda>(k, v). TString k # TColon # tokens_of v) (y # zs)))"
    by (simp only: split run_append first option.case)
  also have "\<dots> = run (PKey, FObj (acc @ [kv]) # st)
        (join [TComma] (map (\<lambda>(k, v). TString k # TColon # tokens_of v) (y # zs)))"
    by simp
  finally show ?case using rest by simp
qed

lemma run_tokens_of:
  "serializable v \<Longrightarrow> run (PValue, st) (tokens_of v) = reduce v st"
proof (induction v arbitrary: st)
  case (JArr xs)
  show ?case
  proof (cases "xs = []")
    case True
    then show ?thesis by (simp split: option.splits)
  next
    case False
    have "run (PFirst, FArr [] # st) (join [TComma] (map tokens_of xs)) = Some (PAfter, FArr ([] @ xs) # st)"
      using JArr False by (intro run_elements) simp_all
    then show ?thesis by (simp add: run_append run_done)
  qed
next
  case (JObj kvs)
  show ?case
  proof (cases "kvs = []")
    case True
    then show ?thesis by (simp split: option.splits)
  next
    case False
    have elem: "\<forall>kv \<in> set kvs. \<forall>st. run (PValue, st) (tokens_of (snd kv)) = reduce (snd kv) st"
    proof (intro ballI allI)
      fix kv st'
      assume kv: "kv \<in> set kvs"
      with JObj.prems have "serializable (snd kv)" by auto
      moreover have "snd kv \<in> Basic_BNFs.snds kv" by (cases kv) simp
      ultimately show "run (PValue, st') (tokens_of (snd kv)) = reduce (snd kv) st'"
        using JObj.IH kv by blast
    qed
    have "run (PObjFirst, FObj [] # st) (join [TComma] (map (\<lambda>(k, v). TString k # TColon # tokens_of v) kvs))
      = Some (PAfter, FObj ([] @ kvs) # st)"
      using elem False JObj.prems by (intro run_members) simp_all
    then show ?thesis by (simp add: run_append run_done)
  qed
qed (simp_all split: option.splits)

lemma JSON_parse_stringify: "serializable v \<Longrightarrow> JSON_parse (JSON_stringify v) = Inr v"
proof -
  assume v: "serializable v"
  have "tokenize (JSON_stringify v @ []) = push_tokens (tokens_of v) (tokenize [])"
    using v by (intro lex_stringify) (simp_all add: num_end_simps)
  then have "tokenize (JSON_stringify v) = Some (tokens_of v)"
    by (simp add: push_tokens_def tokenize.simps)
  moreover have "parse_tokens (tokens_of v) = Some v"
    using run_tokens_of[OF v, of "[]"] by (simp add: parse_tokens_def)
  ultimately show ?thesis by (simp add: JSON_parse_def)
qed

subsection \<open>\<^verbatim>\<open>querystring.parse\<close>\<close>

text \<open>
  The value of a key of the parsed query: a string, or the array of all its values when
  the key comes more than once. A key that is absent reads as \<^verbatim>\<open>undefined\<close>, here
  \<open>None\<close>.
\<close>

datatype qsval = QStr string | QArr "string list"

type_synonym query = "(string \<times> qsval) list"

text \<open>JavaScript's string conversion and truthiness of such a value.\<close>

fun ToString :: "qsval option \<Rightarrow> string" where
  "ToString None = ''undefined''"
| "ToString (Some (QStr s)) = s"
| "ToString (Some (QArr xs)) = join '','' xs"

fun truthy :: "qsval option \<Rightarrow> bool" where
  "truthy None = False"
| "truthy (Some (QStr s)) = (s \<noteq> [])"
| "truthy (Some (QArr xs)) = True"

fun json_of_qsval :: "qsval \<Rightarrow> json" where
  "json_of_qsval (QStr s) = JStr s"
| "json_of_qsval (QArr xs) = JArr (map JStr xs)"

text \<open>
  \<^verbatim>\<open>str.split(sep)\<close> for a one-character separator: the pieces between the separators,
  the empty ones included.
\<close>

fun split_on :: "char \<Rightarrow> string \<Rightarrow> string list" where
  "split_on sep [] = [[]]"
| "split_on sep (c # cs) =
     (if c = sep then [] # split_on sep cs
      else (case split_on sep cs of
              [] \<Rightarrow> [[c]]
            | p # ps \<Rightarrow> (c # p) # ps))"

text \<open>
  Percent-decoding, \<^verbatim>\<open>querystring.unescape\<close>: a \<^verbatim>\<open>%\<close> followed by two hexadecimal digits
  becomes the byte they denote, every other character stays. Where the decoded bytes are
  not well-formed UTF-8, Node.js substitutes U+FFFD for the malformed part; the model
  keeps the bytes.
\<close>

definition is_escape :: "string \<Rightarrow> bool" where
  "is_escape cs = (case cs of h1 # h2 # r \<Rightarrow> is_hex h1 \<and> is_hex h2 | _ \<Rightarrow> False)"

fun unescape :: "string \<Rightarrow> string" where
  "unescape [] = []"
| "unescape (c # cs) =
     (if c = CHR ''%'' \<and> is_escape cs
      then char_of (hex_val (hd cs) * 16 + hex_val (hd (tl cs))) # unescape (drop 2 cs)
      else c # unescape cs)"

definition decode_component :: "string \<Rightarrow> string" where
  "decode_component s = unescape (map (\<lambda>c. if c = CHR ''+'' then CHR '' '' else c) s)"

definition addKeyValue :: "query \<Rightarrow> string \<Rightarrow> string \<Rightarrow> query" where
  "addKeyValue obj key val =
     (case map_of obj key of
        None \<Rightarrow> obj @ [(key, QStr val)]
      | Some (QStr cur) \<Rightarrow> map (\<lambda>(k, v). if k = key then (k, QArr [cur, val]) else (k, v)) obj
      | Some (QArr curs) \<Rightarrow> map (\<lambda>(k, v). if k = key then (k, QArr (curs @ [val])) else (k, v)) obj)"

text \<open>
  \<^verbatim>\<open>querystring.parse(str)\<close> with its defaults: the pieces between \<^verbatim>\<open>&\<close>, at most the
  first 1000 (\<^verbatim>\<open>maxKeys\<close>), the empty ones skipped; each piece is cut at its first \<^verbatim>\<open>=\<close>
  into key and value (no \<^verbatim>\<open>=\<close>: the value is empty), and both are decoded. The result
  has no prototype, so only the parsed keys are properties of it.
\<close>

definition querystring_parse :: "string \<Rightarrow> query" where
  "querystring_parse qs =
     fold (\<lambda>piece obj.
             addKeyValue obj
               (decode_component (takeWhile (\<lambda>c. c \<noteq> CHR ''='') piece))
               (decode_component (drop 1 (dropWhile (\<lambda>c. c \<noteq> CHR ''='') piece))))
          (filter (\<lambda>piece. piece \<noteq> []) (take 1000 (split_on (CHR ''&'') qs)))
          []"

subsection \<open>The two regular expressions\<close>

text \<open>
  \<^verbatim>\<open>.\<close> matches every character but a line terminator: LF, CR, U+2028 and U+2029 (in
  UTF-8 the bytes E2 80 A8 and E2 80 A9). \<open>first_line s\<close> is the longest prefix of
  \<open>s\<close> that \<^verbatim>\<open>.*\<close> can match.
\<close>

fun first_line :: "string \<Rightarrow> string" where
  "first_line [] = []"
| "first_line (c # cs) =
     (if c = CHR 0x0A \<or> c = CHR 0x0D
         \<or> take 3 (c # cs) = [CHR 0xE2, CHR 0x80, CHR 0xA8]
         \<or> take 3 (c # cs) = [CHR 0xE2, CHR 0x80, CHR 0xA9]
      then [] else c # first_line cs)"

text \<open>
  \<^verbatim>\<open>s.replace(/^.*\?/, '')\<close>: the match starts at the start of \<open>s\<close>, \<^verbatim>\<open>.*\<close> is greedy,
  so what is deleted ends with the last \<^verbatim>\<open>?\<close> of the first line; with no \<^verbatim>\<open>?\<close> there,
  nothing matches and \<open>s\<close> is returned as it is.
\<close>

definition replace_to_question :: "string \<Rightarrow> string" where
  "replace_to_question s =
     drop (length (dropWhile (\<lambda>c. c \<noteq> CHR ''?'') (rev (first_line s)))) s"

text \<open>
  \<^verbatim>\<open>/code=([^&]*)/.exec(s)\<close>: the first group of the leftmost match, or \<open>None\<close> for
  \<^verbatim>\<open>null\<close>.
\<close>

fun exec_code :: "string \<Rightarrow> string option" where
  "exec_code [] = None"
| "exec_code (c # cs) =
     (if take 5 (c # cs) = ''code='' then Some (takeWhile (\<lambda>x. x \<noteq> CHR ''&'') (drop 4 cs))
      else exec_code cs)"

definition startsWith :: "string \<Rightarrow> string \<Rightarrow> bool" where
  "startsWith s p = (take (length p) s = p)"

subsection \<open>\<^verbatim>\<open>url.URL\<close>\<close>

text \<open>
  The parts of a URL object that the repository reads or writes. The constructor is
  modelled on the URLs this repository gives it, the two entries of its table: the
  scheme \<^verbatim>\<open>https\<close>, a host name of lower-case letters, digits, \<^verbatim>\<open>-\<close> and \<^verbatim>\<open>.\<close> that ends in
  a letter, no port, and a path of letters, digits, \<^verbatim>\<open>-\<close>, \<^verbatim>\<open>_\<close> and \<^verbatim>\<open>/\<close>. Such a URL
  is its own normal form. Any other text is answered with the \<^verbatim>\<open>TypeError\<close> of an invalid
  URL, which is what \<^verbatim>\<open>undefined\<close> gets.
\<close>

record url =
  origin :: string
  pathname :: string
  searchParams :: "(string \<times> string) list"

definition is_lower :: "char \<Rightarrow> bool" where
  "is_lower c = (97 \<le> (of_char c :: nat) \<and> (of_char c :: nat) \<le> 122)"

definition is_upper :: "char \<Rightarrow> bool" where
  "is_upper c = (65 \<le> (of_char c :: nat) \<and> (of_char c :: nat) \<le> 90)"

definition host_char :: "char \<Rightarrow> bool" where
  "host_char c = (is_lower c \<or> is_digit c \<or> c = CHR ''-'' \<or> c = CHR ''.'')"

definition path_char :: "char \<Rightarrow> bool" where
  "path_char c = (is_lower c \<or> is_upper c \<or> is_digit c \<or> c = CHR ''-'' \<or> c = CHR ''_''
     \<or> c = CHR ''/'')"

definition URL_new :: "string \<Rightarrow> js_error + url" where
  "URL_new s =
     (let rest = drop 8 s;
          host = takeWhile (\<lambda>c. c \<noteq> CHR ''/'') rest;
          path = dropWhile (\<lambda>c. c \<noteq> CHR ''/'') rest
      in if take 8 s = ''https://'' \<and> host \<noteq> [] \<and> list_all host_char host \<and> is_lower (last host)
            \<and> list_all path_char path
         then Inr \<lparr>origin = ''https://'' @ host,
                   pathname = (if path = [] then ''/'' else path),
                   searchParams = []\<rparr>
         else Inl TypeError)"

text \<open>
  \<^verbatim>\<open>searchParams.set(name, value)\<close>: the first pair of that name gets the value and the
  other pairs of that name go; with no such pair, the new pair is appended.
\<close>

fun searchParams_set :: "(string \<times> string) list \<Rightarrow> string \<Rightarrow> string \<Rightarrow> (string \<times> string) list" where
  "searchParams_set [] name val = [(name, val)]"
| "searchParams_set (p # ps) name val =
     (if fst p = name then (name, val) # filter (\<lambda>q. fst q \<noteq> name) ps
      else p # searchParams_set ps name val)"

text \<open>
  The serializer of \<^verbatim>\<open>application/x-www-form-urlencoded\<close>: letters, digits and
  \<^verbatim>\<open>*-._\<close> stay, a space becomes \<^verbatim>\<open>+\<close>, every other byte is percent-encoded.
\<close>

definition HEX_char :: "nat \<Rightarrow> char" where
  "HEX_char d = ''0123456789ABCDEF'' ! d"

definition urlencode_byte :: "char \<Rightarrow> string" where
  "urlencode_byte c =
     (if is_lower c \<or> is_upper c \<or> is_digit c \<or> c = CHR ''*'' \<or> c = CHR ''-'' \<or> c = CHR ''.''
         \<or> c = CHR ''_'' then [c]
      else if c = CHR '' '' then ''+''
      else [CHR ''%'', HEX_char (of_char c div 16), HEX_char (of_char c mod 16)])"

definition urlencode :: "string \<Rightarrow> string" where
  "urlencode s = concat (map urlencode_byte s)"

definition urlencoded :: "(string \<times> string) list \<Rightarrow> string" where
  "urlencoded ps = join ''&'' (map (\<lambda>(k, v). urlencode k @ ''='' @ urlencode v) ps)"

text \<open>\<^verbatim>\<open>uri.href\<close>: the query is there exactly when there are parameters.\<close>

definition href :: "url \<Rightarrow> string" where
  "href u = origin u @ pathname u
     @ (if searchParams u = [] then [] else CHR ''?'' # urlencoded (searchParams u))"

subsection \<open>The response, the promise and the callback\<close>

text \<open>
  The response object of \<^verbatim>\<open>http\<close> is represented by the record of what has been done to
  it, oldest first: the headers set, the assignments to \<^verbatim>\<open>statusCode\<close>, \<^verbatim>\<open>writeHead\<close>
  and \<^verbatim>\<open>end\<close>. Passing and returning the response is passing and returning this
  record. The response is taken to accept each call, as one whose head has not been sent
  does.
\<close>

datatype call =
    SetHeader string string
  | SetStatusCode nat
  | WriteHead nat "(string \<times> string) list"
  | End "string option"

type_synonym response = "call list"

text \<open>
  A handler acts on the response, on the promise it returns and on the completion
  callback \<^verbatim>\<open>done\<close>; its events are these actions in program order.
\<close>

datatype event = Call call | Resolve json | Reject js_error | Done

datatype outcome = Pending | Resolved json | Rejected js_error

text \<open>
  The state of a promise after its executor has run: the first \<^verbatim>\<open>resolve\<close> or
  \<^verbatim>\<open>reject\<close> settles it, later ones change nothing.
\<close>

fun settled :: "event list \<Rightarrow> outcome" where
  "settled [] = Pending"
| "settled (Resolve v # es) = Resolved v"
| "settled (Reject e # es) = Rejected e"
| "settled (_ # es) = settled es"

text \<open>
  \<^verbatim>\<open>new Promise(executor)\<close>: an executor is given by the events it performs and the
  exception it ends with, if any. An exception rejects the promise unless it was settled
  before.
\<close>

definition new_Promise :: "event list \<Rightarrow> js_error option \<Rightarrow> outcome" where
  "new_Promise es thrown =
     (case settled es of
        Pending \<Rightarrow> (case thrown of None \<Rightarrow> Pending | Some e \<Rightarrow> Rejected e)
      | s \<Rightarrow> s)"

text \<open>
  The status line that \<^verbatim>\<open>http\<close> sends for a response: \<^verbatim>\<open>writeHead(status, headers)\<close>
  sends the head with its own status, whatever \<^verbatim>\<open>statusCode\<close> was assigned before;
  \<^verbatim>\<open>end\<close> sends it with the current \<^verbatim>\<open>statusCode\<close> if no \<^verbatim>\<open>writeHead\<close> came first.
  \<open>cur\<close> is the \<^verbatim>\<open>statusCode\<close> of the response before the calls, 200 for a new one;
  \<open>None\<close> says that the head has not been sent.
\<close>

fun status_sent :: "nat \<Rightarrow> call list \<Rightarrow> nat option" where
  "status_sent cur [] = None"
| "status_sent cur (SetStatusCode n # cs) = status_sent n cs"
| "status_sent cur (WriteHead n hs # cs) = Some n"
| "status_sent cur (End b # cs) = Some cur"
| "status_sent cur (SetHeader k v # cs) = status_sent cur cs"

text \<open>The calls on the response among the events of a handler.\<close>

fun calls_of :: "event list \<Rightarrow> call list" where
  "calls_of [] = []"
| "calls_of (Call c # es) = c # calls_of es"
| "calls_of (_ # es) = calls_of es"

text \<open>
  The completion callback was called exactly once, and the response had been ended
  before that call.
\<close>

fun is_End :: "event \<Rightarrow> bool" where
  "is_End (Call (End b)) = True"
| "is_End _ = False"

definition done_once_after_end :: "event list \<Rightarrow> bool" where
  "done_once_after_end es =
     (length (filter (\<lambda>e. e = Done) es) = 1
      \<and> list_ex is_End (takeWhile (\<lambda>e. e \<noteq> Done) es))"

section \<open>The callback helpers (\<^verbatim>\<open>src/helpers.js\<close>)\<close>

datatype env = prod | stage

definition DEFAULT_ENV :: env where
  "DEFAULT_ENV = prod"

definition PROTOCOL_VERSION :: number where
  "PROTOCOL_VERSION = Fin 2"

fun IMS_CLI_OAUTH_URL :: "env \<Rightarrow> string" where
  "IMS_CLI_OAUTH_URL prod = ''https://aio-login.adobeioruntime.net/api/v1/web/default/applogin''"
| "IMS_CLI_OAUTH_URL stage = ''https://aio-login.adobeioruntime.net/api/v1/web/default/applogin-stage''"

text \<open>
  A parameter \<^verbatim>\<open>env = DEFAULT_ENV\<close>: the argument is an environment of the table, or it
  is left out (\<open>None\<close>) and the default is taken.
\<close>

definition env_or_default :: "env option \<Rightarrow> env" where
  "env_or_default env = (case env of None \<Rightarrow> DEFAULT_ENV | Some e \<Rightarrow> e)"

subsection \<open>\<^verbatim>\<open>authSiteUrl\<close>\<close>

text \<open>
  The values of the query parameters are strings, \<^verbatim>\<open>undefined\<close> or \<^verbatim>\<open>null\<close>. The
  object \<open>queryParams\<close> is the list of its properties in the order of
  \<^verbatim>\<open>Object.keys\<close>.
\<close>

datatype param = Undefined | Null | Value string

definition authSiteUrl :: "(string \<times> param) list \<Rightarrow> env option \<Rightarrow> js_error + string" where
  "authSiteUrl queryParams env =
     (case URL_new (IMS_CLI_OAUTH_URL (env_or_default env)) of
        Inl e \<Rightarrow> Inl e
      | Inr uri \<Rightarrow>
          Inr (href
            (fold (\<lambda>key uri.
                     case map_of queryParams key of
                       Some (Value v) \<Rightarrow> uri\<lparr>searchParams := searchParams_set (searchParams uri) key v\<rparr>
                     | _ \<Rightarrow> uri)
                  (map fst queryParams) uri)))"

subsection \<open>\<^verbatim>\<open>stringToJson\<close>\<close>

text \<open>
  \<^verbatim>\<open>try { return JSON.parse(value) } catch (e) { return {} }\<close>. The argument is what the
  handlers pass, a value of the parsed query; \<^verbatim>\<open>JSON.parse\<close> converts it to a string
  first.
\<close>

definition stringToJson :: "qsval option \<Rightarrow> js_error + json" where
  "stringToJson v =
     (case JSON_parse (ToString v) of
        Inr parsed \<Rightarrow> Inr parsed
      | Inl e \<Rightarrow> Inr (JObj []))"

subsection \<open>\<^verbatim>\<open>cors\<close>\<close>

definition cors :: "response \<Rightarrow> env option \<Rightarrow> js_error + response" where
  "cors response env =
     (case URL_new (IMS_CLI_OAUTH_URL (env_or_default env)) of
        Inl e \<Rightarrow> Inl e
      | Inr u \<Rightarrow>
          Inr (response @
            [SetHeader ''Content-Type'' ''text/plain'',
             SetHeader ''Access-Control-Allow-Origin'' (origin u),
             SetHeader ''Access-Control-Request-Method'' ''*'',
             SetHeader ''Access-Control-Allow-Methods'' ''OPTIONS, POST'',
             SetHeader ''Access-Control-Allow-Headers'' ''*'']))"

subsection \<open>\<^verbatim>\<open>codeTransform\<close>\<close>

text \<open>
  \<^verbatim>\<open>codeType === 'access_token'\<close> holds for that string only, not for an array and not
  for \<^verbatim>\<open>undefined\<close>. The exception of \<^verbatim>\<open>JSON.parse\<close> is not caught here.
\<close>

definition codeTransform :: "qsval \<Rightarrow> qsval option \<Rightarrow> js_error + json" where
  "codeTransform code codeType =
     (if codeType = Some (QStr ''access_token'') then JSON_parse (ToString (Some code))
      else Inr (json_of_qsval code))"

subsection \<open>\<^verbatim>\<open>handleGET\<close>\<close>

record request =
  url :: string
  chunks :: "string list"

text \<open>
  \<open>url\<close> is \<^verbatim>\<open>request.url\<close>; \<open>chunks\<close> are the \<^verbatim>\<open>data\<close> events of the request, each
  converted to a string, before its \<^verbatim>\<open>end\<close> event.

  What a handler leaves behind: the events on the response, the promise and the
  callback, the state of the promise it returned, and an exception that reached nobody
  (thrown in an event listener, after the promise had been returned).
\<close>

record handled =
  events :: "event list"
  promise :: outcome
  unhandled :: "js_error option"

text \<open>
  \<^verbatim>\<open>state.id\<close>: reading a property of \<^verbatim>\<open>null\<close> throws a \<^verbatim>\<open>TypeError\<close>; an object
  has the property if the key is among its own (no prototype of a parsed value has an
  \<^verbatim>\<open>id\<close>); \<open>None\<close> is \<^verbatim>\<open>undefined\<close>.
\<close>

fun get_id :: "json \<Rightarrow> js_error + json option" where
  "get_id JNull = Inl TypeError"
| "get_id (JObj ms) = Inr (map_of ms ''id'')"
| "get_id _ = Inr None"

text \<open>
  \<^verbatim>\<open>queryData.code && state.id === id\<close>: the right operand is evaluated only when the
  left one is truthy, and \<^verbatim>\<open>===\<close> against the string \<open>id'\<close> holds for that very string
  only.
\<close>

definition code_and_id :: "query \<Rightarrow> json \<Rightarrow> string \<Rightarrow> js_error + bool" where
  "code_and_id queryData state id' =
     (if truthy (map_of queryData ''code'') then
        (case get_id state of
           Inl e \<Rightarrow> Inl e
         | Inr v \<Rightarrow> Inr (v = Some (JStr id')))
      else Inr False)"

definition error_message :: string where
  "error_message = ''An error occurred in the cli.''"

text \<open>
  The two calls of \<^verbatim>\<open>debug\<close> only format the state and the query for the diagnostic
  log and are left out.
\<close>

definition handleGET :: "request \<Rightarrow> response \<Rightarrow> string \<Rightarrow> env option \<Rightarrow> handled" where
  "handleGET request response id' env =
     (case cors response env of
        Inl e \<Rightarrow> \<lparr>events = map Call response, promise = new_Promise (map Call response) (Some e), unhandled = None\<rparr>
      | Inr response1 \<Rightarrow>
          let requestUrl = replace_to_question (url request);
              queryData = querystring_parse requestUrl
          in (case stringToJson (map_of queryData ''state'') of
                Inl e \<Rightarrow> \<lparr>events = map Call response1, promise = new_Promise (map Call response1) (Some e), unhandled = None\<rparr>
              | Inr state \<Rightarrow>
                  (case code_and_id queryData state id' of
                     Inl e \<Rightarrow>
                       \<lparr>events = map Call response1, promise = new_Promise (map Call response1) (Some e), unhandled = None\<rparr>
                   | Inr True \<Rightarrow>
                       (case codeTransform (the (map_of queryData ''code'')) (map_of queryData ''code_type'') of
                          Inl e \<Rightarrow>
                            \<lparr>events = map Call response1, promise = new_Promise (map Call response1) (Some e),
                             unhandled = None\<rparr>
                        | Inr code \<Rightarrow>
                            let signedInUrl = IMS_CLI_OAUTH_URL (env_or_default env) @ ''/signed-in'';
                                es = map Call response1 @
                                  [Resolve code,
                                   Call (SetHeader ''Cache-Control'' ''private, no-cache''),
                                   Call (WriteHead 302 [(''Location'', signedInUrl)]),
                                   Call (End None),
                                   Done]
                            in \<lparr>events = es, promise = new_Promise es None, unhandled = None\<rparr>)
                   | Inr False \<Rightarrow>
                       let errorUrl = IMS_CLI_OAUTH_URL (env_or_default env) @ ''/error?message=''
                             @ error_message;
                           es = map Call response1 @
                             [Call (SetStatusCode 400),
                              Call (SetHeader ''Cache-Control'' ''private, no-cache''),
                              Call (WriteHead 302 [(''Location'', errorUrl)]),
                              Call (End None),
                              Reject (Error (''error code='' @ ToString (map_of queryData ''code''))),
                              Done]
                       in \<lparr>events = es, promise = new_Promise es None, unhandled = None\<rparr>)))"

subsection \<open>\<^verbatim>\<open>createJsonResponse\<close>\<close>

text \<open>
  The object \<^verbatim>\<open>{ protocol_version, redirect, error, message }\<close>, \<^verbatim>\<open>error\<close> defaulting to
  \<^verbatim>\<open>false\<close>. A property whose value is \<^verbatim>\<open>undefined\<close> is left out of the model's object,
  as \<^verbatim>\<open>JSON.stringify\<close> leaves it out of the text.
\<close>

definition createJsonResponse :: "string option \<Rightarrow> string option \<Rightarrow> bool option \<Rightarrow> json" where
  "createJsonResponse redirect message error =
     JObj ([(''protocol_version'', JNum PROTOCOL_VERSION)]
           @ (case redirect of None \<Rightarrow> [] | Some r \<Rightarrow> [(''redirect'', JStr r)])
           @ [(''error'', JBool (case error of None \<Rightarrow> False | Some b \<Rightarrow> b))]
           @ (case message of None \<Rightarrow> [] | Some m \<Rightarrow> [(''message'', JStr m)]))"

subsection \<open>\<^verbatim>\<open>handlePOST\<close>\<close>

text \<open>
  The executor sets the headers and registers the two listeners; the body is the
  concatenation of the chunks, and the rest runs in the listener of \<^verbatim>\<open>end\<close>. That
  listener is an \<^verbatim>\<open>async\<close> function: an exception in it rejects a promise nobody holds,
  and the promise that \<^verbatim>\<open>handlePOST\<close> returned stays as it was.
\<close>

definition handlePOST :: "request \<Rightarrow> response \<Rightarrow> string \<Rightarrow> env option \<Rightarrow> handled" where
  "handlePOST request response id' env =
     (case cors response env of
        Inl e \<Rightarrow> \<lparr>events = map Call response, promise = new_Promise (map Call response) (Some e), unhandled = None\<rparr>
      | Inr response1 \<Rightarrow>
          let body = fold (\<lambda>data body. body @ data) (chunks request) [];
              queryData = querystring_parse body
          in (case stringToJson (map_of queryData ''state'') of
                Inl e \<Rightarrow> \<lparr>events = map Call response1, promise = new_Promise (map Call response1) None, unhandled = Some e\<rparr>
              | Inr state \<Rightarrow>
                  (case code_and_id queryData state id' of
                     Inl e \<Rightarrow>
                       \<lparr>events = map Call response1, promise = new_Promise (map Call response1) None, unhandled = Some e\<rparr>
                   | Inr True \<Rightarrow>
                       (case codeTransform (the (map_of queryData ''code'')) (map_of queryData ''code_type'') of
                          Inl e \<Rightarrow>
                            \<lparr>events = map Call response1, promise = new_Promise (map Call response1) None,
                             unhandled = Some e\<rparr>
                        | Inr code \<Rightarrow>
                            let redirect = IMS_CLI_OAUTH_URL (env_or_default env) @ ''/signed-in'';
                                es = map Call response1 @
                                  [Resolve code,
                                   Call (SetStatusCode 200),
                                   Call (End (Some (JSON_stringify
                                     (createJsonResponse (Some redirect) None None)))),
                                   Done]
                            in \<lparr>events = es, promise = new_Promise es None, unhandled = None\<rparr>)
                   | Inr False \<Rightarrow>
                       let redirect = IMS_CLI_OAUTH_URL (env_or_default env) @ ''/error?message=''
                             @ error_message;
                           es = map Call response1 @
                             [Call (SetStatusCode 400),
                              Call (End (Some (JSON_stringify
                                (createJsonResponse (Some redirect) (Some error_message) (Some True))))),
                              Reject (Error (''error code='' @ ToString (map_of queryData ''code''))),
                              Done]
                       in \<lparr>events = es, promise = new_Promise es None, unhandled = None\<rparr>)))"

section \<open>The native-window watcher (\<^verbatim>\<open>src/lib/main.js\<close>)\<close>

text \<open>
  What the application does to the process: it writes to one of the two streams and
  exits.
\<close>

datatype app_event = StdoutWrite string | StderrWrite string | AppExit nat

definition failApp :: "string \<Rightarrow> app_event list" where
  "failApp message = [StderrWrite message, AppExit 1]"

definition succeedApp :: "string \<Rightarrow> app_event list" where
  "succeedApp result = [StdoutWrite result, AppExit 0]"

text \<open>
  \<^verbatim>\<open>error\<close> is an identifier that \<^verbatim>\<open>main.js\<close> declares nowhere and that is no global of
  the platform: evaluating it throws a \<^verbatim>\<open>ReferenceError\<close>.
\<close>

definition undeclared_error :: "js_error + bool" where
  "undeclared_error = Inl ReferenceError"

text \<open>
  The state of the watcher is the variable \<^verbatim>\<open>win\<close>: \<open>True\<close> while it holds the window,
  \<open>False\<close> once it is \<^verbatim>\<open>null\<close>. \<open>handleCallback\<close> returns the new state, what it did to
  the process, and the exception it ended with, if any.
\<close>

definition handleCallback :: "string \<Rightarrow> string \<Rightarrow> bool \<Rightarrow> bool \<times> app_event list \<times> js_error option" where
  "handleCallback callbackUrl url' win =
     (if \<not> startsWith url' callbackUrl then (win, [], None)
      else
        let raw_code = exec_code url';
            code = (case raw_code of None \<Rightarrow> None | Some c \<Rightarrow> Some c)
        in if code \<noteq> None \<and> code \<noteq> Some [] then (False, succeedApp (the code), None)
           else (case undeclared_error of
                   Inl e \<Rightarrow> (False, [], Some e)
                 | Inr b \<Rightarrow>
                     if b then (False, failApp (''Received empty code on callback URL '' @ url'), None)
                     else (False, [], None)))"

section \<open>The branches of the two handlers\<close>

text \<open>
  Both entries of the table are URLs that the constructor accepts, with the same origin.
  So \<^verbatim>\<open>cors\<close> never throws, and a handler ends in one of four ways: the condition
  \<^verbatim>\<open>queryData.code && state.id === id\<close> throws, it is false, it is true and
  \<^verbatim>\<open>codeTransform\<close> throws, or it is true and \<^verbatim>\<open>codeTransform\<close> returns.
\<close>

lemma URL_new_prod:
  "URL_new (IMS_CLI_OAUTH_URL prod)
   = Inr \<lparr>origin = ''https://aio-login.adobeioruntime.net'',
          pathname = ''/api/v1/web/default/applogin'', searchParams = []\<rparr>"
  by code_simp

lemma URL_new_stage:
  "URL_new (IMS_CLI_OAUTH_URL stage)
   = Inr \<lparr>origin = ''https://aio-login.adobeioruntime.net'',
          pathname = ''/api/v1/web/default/applogin-stage'', searchParams = []\<rparr>"
  by code_simp

lemma URL_new_table:
  "URL_new (IMS_CLI_OAUTH_URL e)
   = Inr \<lparr>origin = ''https://aio-login.adobeioruntime.net'',
          pathname = drop 36 (IMS_CLI_OAUTH_URL e), searchParams = []\<rparr>"
  by (cases e) (simp_all only: URL_new_prod URL_new_stage, simp_all)

text \<open>The five calls of \<^verbatim>\<open>cors\<close>, the same for both environments.\<close>

definition cors_calls :: "call list" where
  "cors_calls =
     [SetHeader ''Content-Type'' ''text/plain'',
      SetHeader ''Access-Control-Allow-Origin'' ''https://aio-login.adobeioruntime.net'',
      SetHeader ''Access-Control-Request-Method'' ''*'',
      SetHeader ''Access-Control-Allow-Methods'' ''OPTIONS, POST'',
      SetHeader ''Access-Control-Allow-Headers'' ''*'']"

lemma cors_Inr: "cors response env = Inr (response @ cors_calls)"
  by (simp add: cors_def cors_calls_def URL_new_table)

lemma settled_calls: "settled (map Call cs @ es) = settled es"
  by (induction cs) simp_all

lemma settled_only_calls: "settled (map Call cs) = Pending"
  by (induction cs) simp_all

lemma fold_chunks: "fold (\<lambda>data body. body @ data) cs acc = acc @ concat cs"
  by (induction cs arbitrary: acc) simp_all

lemma code_and_id_True:
  "code_and_id qd st i = Inr True
   \<longleftrightarrow> truthy (map_of qd ''code'') \<and> get_id st = Inr (Some (JStr i))"
  by (auto simp: code_and_id_def split: sum.splits)

lemma code_and_id_False:
  "code_and_id qd st i = Inr False
   \<longleftrightarrow> \<not> truthy (map_of qd ''code'') \<or> (\<exists>w. get_id st = Inr w \<and> w \<noteq> Some (JStr i))"
  by (auto simp: code_and_id_def split: sum.splits)

lemma code_and_id_throws:
  "code_and_id qd st i = Inl e \<longleftrightarrow> truthy (map_of qd ''code'') \<and> get_id st = Inl e"
  by (auto simp: code_and_id_def split: sum.splits)

lemma get_id_throws: "get_id st = Inl e \<longleftrightarrow> st = JNull \<and> e = TypeError"
  by (cases st) auto


lemma handleGET_resolves:
  assumes "qd = querystring_parse (replace_to_question (url request))"
    and "stringToJson (map_of qd ''state'') = Inr st"
    and "code_and_id qd st i = Inr True"
    and "codeTransform (the (map_of qd ''code'')) (map_of qd ''code_type'') = Inr v"
  shows "handleGET request response i env =
    \<lparr>events = map Call (response @ cors_calls) @
           [Resolve v,
            Call (SetHeader ''Cache-Control'' ''private, no-cache''),
            Call (WriteHead 302 [(''Location'', IMS_CLI_OAUTH_URL (env_or_default env) @ ''/signed-in'')]),
            Call (End None),
            Done],
     promise = Resolved v, unhandled = None\<rparr>"
  using assms by (simp add: handleGET_def cors_Inr Let_def new_Promise_def settled_calls settled_only_calls fold_chunks)

lemma handleGET_rejects:
  assumes "qd = querystring_parse (replace_to_question (url request))"
    and "stringToJson (map_of qd ''state'') = Inr st"
    and "code_and_id qd st i = Inr False"
  shows "handleGET request response i env =
    \<lparr>events = map Call (response @ cors_calls) @
           [Call (SetStatusCode 400),
            Call (SetHeader ''Cache-Control'' ''private, no-cache''),
            Call (WriteHead 302 [(''Location'',
              IMS_CLI_OAUTH_URL (env_or_default env) @ ''/error?message='' @ error_message)]),
            Call (End None),
            Reject (Error (''error code='' @ ToString (map_of qd ''code''))),
            Done],
     promise = Rejected (Error (''error code='' @ ToString (map_of qd ''code''))), unhandled = None\<rparr>"
  using assms by (simp add: handleGET_def cors_Inr Let_def new_Promise_def settled_calls settled_only_calls fold_chunks)

lemma handleGET_transform_throws:
  assumes "qd = querystring_parse (replace_to_question (url request))"
    and "stringToJson (map_of qd ''state'') = Inr st"
    and "code_and_id qd st i = Inr True"
    and "codeTransform (the (map_of qd ''code'')) (map_of qd ''code_type'') = Inl e"
  shows "handleGET request response i env =
    \<lparr>events = map Call (response @ cors_calls), promise = Rejected e, unhandled = None\<rparr>"
  using assms by (simp add: handleGET_def cors_Inr Let_def new_Promise_def settled_calls settled_only_calls fold_chunks)

lemma handleGET_id_throws:
  assumes "qd = querystring_parse (replace_to_question (url request))"
    and "stringToJson (map_of qd ''state'') = Inr st"
    and "code_and_id qd st i = Inl e"
  shows "handleGET request response i env =
    \<lparr>events = map Call (response @ cors_calls), promise = Rejected e, unhandled = None\<rparr>"
  using assms by (simp add: handleGET_def cors_Inr Let_def new_Promise_def settled_calls settled_only_calls fold_chunks)

lemma handlePOST_resolves:
  assumes "qd = querystring_parse (concat (chunks request))"
    and "stringToJson (map_of qd ''state'') = Inr st"
    and "code_and_id qd st i = Inr True"
    and "codeTransform (the (map_of qd ''code'')) (map_of qd ''code_type'') = Inr v"
  shows "handlePOST request response i env =
    \<lparr>events = map Call (response @ cors_calls) @
           [Resolve v,
            Call (SetStatusCode 200),
            Call (End (Some (JSON_stringify (createJsonResponse
              (Some (IMS_CLI_OAUTH_URL (env_or_default env) @ ''/signed-in'')) None None)))),
            Done],
     promise = Resolved v, unhandled = None\<rparr>"
  using assms by (simp add: handlePOST_def cors_Inr Let_def new_Promise_def settled_calls settled_only_calls fold_chunks)

lemma handlePOST_rejects:
  assumes "qd = querystring_parse (concat (chunks request))"
    and "stringToJson (map_of qd ''state'') = Inr st"
    and "code_and_id qd st i = Inr False"
  shows "handlePOST request response i env =
    \<lparr>events = map Call (response @ cors_calls) @
           [Call (SetStatusCode 400),
            Call (End (Some (JSON_stringify (createJsonResponse
              (Some (IMS_CLI_OAUTH_URL (env_or_default env) @ ''/error?message='' @ error_message))
              (Some error_message) (Some True))))),
            Reject (Error (''error code='' @ ToString (map_of qd ''code''))),
            Done],
     promise = Rejected (Error (''error code='' @ ToString (map_of qd ''code''))), unhandled = None\<rparr>"
  using assms by (simp add: handlePOST_def cors_Inr Let_def new_Promise_def settled_calls settled_only_calls fold_chunks)

lemma handlePOST_transform_throws:
  assumes "qd = querystring_parse (concat (chunks request))"
    and "stringToJson (map_of qd ''state'') = Inr st"
    and "code_and_id qd st i = Inr True"
    and "codeTransform (the (map_of qd ''code'')) (map_of qd ''code_type'') = Inl e"
  shows "handlePOST request response i env =
    \<lparr>events = map Call (response @ cors_calls), promise = Pending, unhandled = Some e\<rparr>"
  using assms by (simp add: handlePOST_def cors_Inr Let_def new_Promise_def settled_calls settled_only_calls fold_chunks)

lemma handlePOST_id_throws:
  assumes "qd = querystring_parse (concat (chunks request))"
    and "stringToJson (map_of qd ''state'') = Inr st"
    and "code_and_id qd st i = Inl e"
  shows "handlePOST request response i env =
    \<lparr>events = map Call (response @ cors_calls), promise = Pending, unhandled = Some e\<rparr>"
  using assms by (simp add: handlePOST_def cors_Inr Let_def new_Promise_def settled_calls settled_only_calls fold_chunks)

lemma calls_of_calls: "calls_of (map Call cs @ es) = cs @ calls_of es"
  by (induction cs) simp_all

lemma status_sent_append:
  "status_sent cur xs = None \<Longrightarrow> \<exists>c. \<forall>ys. status_sent cur (xs @ ys) = status_sent c ys"
proof (induction xs arbitrary: cur)
  case Nil
  then show ?case by auto
next
  case (Cons x xs)
  then show ?case by (cases x) auto
qed

lemma status_sent_after_cors:
  assumes "status_sent cur response = None"
  shows "status_sent cur (response @ cors_calls @ SetStatusCode n # rest) = status_sent n rest"
proof -
  from status_sent_append[OF assms] obtain c where
    "\<forall>ys. status_sent cur (response @ ys) = status_sent c ys" by blast
  then have "status_sent cur (response @ cors_calls @ SetStatusCode n # rest)
    = status_sent c (cors_calls @ SetStatusCode n # rest)" by blast
  then show ?thesis by (simp add: cors_calls_def)
qed

lemma filter_Done_calls: "filter (\<lambda>e. e = Done) (map Call cs) = []"
  by (induction cs) simp_all

lemma takeWhile_Done_calls:
  "takeWhile (\<lambda>e. e \<noteq> Done) (map Call cs @ es) = map Call cs @ takeWhile (\<lambda>e. e \<noteq> Done) es"
  by (induction cs) simp_all

lemma Done_notin_calls: "Done \<notin> set (map Call cs)"
  by auto

lemma is_End_calls: "list_ex is_End (map Call cs) \<longleftrightarrow> list_ex (\<lambda>c. case c of End b \<Rightarrow> True | _ \<Rightarrow> False) cs"
  by (induction cs) (auto split: call.splits)

text \<open>
  The entries of the query parameters that \<^verbatim>\<open>authSiteUrl\<close> must set: those with a string
  value, in their order.
\<close>

fun defined_params :: "(string \<times> param) list \<Rightarrow> (string \<times> string) list" where
  "defined_params [] = []"
| "defined_params ((k, Value v) # ps) = (k, v) # defined_params ps"
| "defined_params (_ # ps) = defined_params ps"

lemma searchParams_set_fresh: "k \<notin> fst ` set ps \<Longrightarrow> searchParams_set ps k v = ps @ [(k, v)]"
  by (induction ps) auto

lemma defined_params_keys: "fst ` set (defined_params ps) \<subseteq> fst ` set ps"
  by (induction ps rule: defined_params.induct) auto

lemma defined_params_append: "defined_params (ps @ qs) = defined_params ps @ defined_params qs"
  by (induction ps rule: defined_params.induct) auto

lemma fold_set_params:
  assumes "distinct (map fst (seen @ todo))"
    and "searchParams u = defined_params seen"
  shows "fold (\<lambda>key uri.
             case map_of (seen @ todo) key of
               Some (Value v) \<Rightarrow> uri\<lparr>searchParams := searchParams_set (searchParams uri) key v\<rparr>
             | _ \<Rightarrow> uri)
           (map fst todo) u
         = u\<lparr>searchParams := defined_params (seen @ todo)\<rparr>"
  using assms
proof (induction todo arbitrary: seen u)
  case Nil
  then show ?case by simp
next
  case (Cons kp todo)
  obtain k p where kp: "kp = (k, p)" by (cases kp)
  from Cons.prems kp have fresh: "k \<notin> fst ` set seen" by auto
  then have look: "map_of (seen @ kp # todo) k = Some p"
    by (simp add: kp map_add_def map_of_eq_None_iff[THEN iffD2] split: option.splits)
  let ?f = "\<lambda>key uri.
             case map_of (seen @ kp # todo) key of
               Some (Value v) \<Rightarrow> uri\<lparr>searchParams := searchParams_set (searchParams uri) key v\<rparr>
             | _ \<Rightarrow> uri"
  define u' where "u' = (case p of
      Value v \<Rightarrow> u\<lparr>searchParams := searchParams_set (searchParams u) k v\<rparr>
    | _ \<Rightarrow> u)"
  have u': "?f k u = u'"
    by (simp only: look option.case u'_def)
  have step: "searchParams u' = defined_params (seen @ [kp])"
  proof (cases p)
    case (Value v)
    from fresh defined_params_keys[of seen] have "k \<notin> fst ` set (defined_params seen)" by blast
    with Value Cons.prems(2) kp show ?thesis
      by (simp add: u'_def searchParams_set_fresh defined_params_append)
  qed (use Cons.prems(2) kp in \<open>simp_all add: u'_def defined_params_append\<close>)
  have "fold ?f (map fst (kp # todo)) u = fold ?f (map fst todo) (?f k u)"
    by (simp only: kp list.map fst_conv fold_simps)
  also have "\<dots> = fold ?f (map fst todo) u'"
    by (simp only: u')
  also have "\<dots> = u'\<lparr>searchParams := defined_params ((seen @ [kp]) @ todo)\<rparr>"
    using Cons.IH[of "seen @ [kp]" u'] Cons.prems(1) step by simp
  also have "\<dots> = u\<lparr>searchParams := defined_params (seen @ kp # todo)\<rparr>"
    by (cases p) (simp_all add: u'_def)
  finally show ?case .
qed

lemma table_origin_path:
  "''https://aio-login.adobeioruntime.net'' @ drop 36 (IMS_CLI_OAUTH_URL e) = IMS_CLI_OAUTH_URL e"
  by (cases e) simp_all






section \<open>The claims\<close>

subsection \<open>\<^verbatim>\<open>stringToJson\<close> and \<^verbatim>\<open>codeTransform\<close>\<close>

text \<open>
  C5. \<^verbatim>\<open>stringToJson\<close> never throws: whatever it is given, it returns a value; where
  \<^verbatim>\<open>JSON.parse\<close> throws on the argument (the text is not well-formed JSON), that value is
  the empty object \<^verbatim>\<open>{}\<close>, and where \<^verbatim>\<open>JSON.parse\<close> returns, it is the parsed value.
\<close>

theorem stringToJson_never_throws:
  "(\<exists>v. stringToJson x = Inr v)
   \<and> (\<forall>e. JSON_parse (ToString x) = Inl e \<longrightarrow> stringToJson x = Inr (JObj []))
   \<and> (\<forall>v. JSON_parse (ToString x) = Inr v \<longrightarrow> stringToJson x = Inr v)"
  by (cases "JSON_parse (ToString x)") (simp_all add: stringToJson_def)

theorem stringToJson_never_throws_witness:
  "stringToJson (Some (QStr ''{'')) = Inr (JObj [])
   \<and> stringToJson (Some (QStr ''{ \"foo\": \"bar\" }'')) = Inr (JObj [(''foo'', JStr ''bar'')])"
proof -
  have malformed: "JSON_parse (ToString (Some (QStr ''{''))) = Inl SyntaxError"
    by code_simp
  have well_formed: "JSON_parse (ToString (Some (QStr ''{ \"foo\": \"bar\" }'')))
      = Inr (JObj [(''foo'', JStr ''bar'')])"
    by code_simp
  from malformed well_formed show ?thesis
    using stringToJson_never_throws[of "Some (QStr ''{'')"]
      stringToJson_never_throws[of "Some (QStr ''{ \"foo\": \"bar\" }'')"]
    by blast
qed

text \<open>
  C4. With the code type \<^verbatim>\<open>access_token\<close>, \<^verbatim>\<open>codeTransform\<close> undoes \<^verbatim>\<open>JSON.stringify\<close>:
  for every JSON-serializable value \<open>obj\<close>, \<^verbatim>\<open>codeTransform(JSON.stringify(obj),
  "access_token")\<close> is \<open>obj\<close>. With any other code type, an absent one included, it returns
  the code string as it is.
\<close>

theorem codeTransform_roundtrip:
  "(serializable obj \<longrightarrow>
      codeTransform (QStr (JSON_stringify obj)) (Some (QStr ''access_token'')) = Inr obj)
   \<and> (codeType \<noteq> Some (QStr ''access_token'') \<longrightarrow>
      codeTransform (QStr code) codeType = Inr (JStr code))"
  by (simp add: codeTransform_def JSON_parse_stringify)

theorem codeTransform_roundtrip_witness:
  "codeTransform
      (QStr ''{\"access_token\":\"my-access-token\",\"expires_in\":86399.5,\"ratio\":0.1,\"n\":-1e+21}'')
      (Some (QStr ''access_token''))
     = Inr (JObj [(''access_token'', JStr ''my-access-token''),
                  (''expires_in'', JNum (Fin (172799 / 2))),
                  (''ratio'', JNum (round_double (1 / 10))),
                  (''n'', JNum (Fin (- (10 ^ 21))))])
   \<and> codeTransform (QStr ''my-code'') (Some (QStr ''auth_code'')) = Inr (JStr ''my-code'')
   \<and> codeTransform (QStr ''my-code'') None = Inr (JStr ''my-code'')"
proof -
  let ?obj = "JObj [(''access_token'', JStr ''my-access-token''),
                    (''expires_in'', JNum (Fin (172799 / 2))),
                    (''ratio'', JNum (round_double (1 / 10))),
                    (''n'', JNum (Fin (- (10 ^ 21))))]"
  have serializable: "serializable ?obj"
    by code_simp
  have printed: "JSON_stringify ?obj
      = ''{\"access_token\":\"my-access-token\",\"expires_in\":86399.5,\"ratio\":0.1,\"n\":-1e+21}''"
    by code_simp
  from codeTransform_roundtrip[of ?obj "Some (QStr ''auth_code'')" "''my-code''"] serializable
  have "codeTransform (QStr (JSON_stringify ?obj)) (Some (QStr ''access_token'')) = Inr ?obj"
    and "codeTransform (QStr ''my-code'') (Some (QStr ''auth_code'')) = Inr (JStr ''my-code'')"
    by simp_all
  moreover from codeTransform_roundtrip[of "JNull" "None" "''my-code''"]
  have "codeTransform (QStr ''my-code'') None = Inr (JStr ''my-code'')"
    by simp
  ultimately show ?thesis
    by (simp only: printed)
qed

subsection \<open>The outcome of a handled request\<close>

text \<open>
  In the theorems of this subsection \<open>queryData\<close> is the query that \<^verbatim>\<open>handleGET\<close> parses
  from the URL of the request and \<open>state\<close> the value that \<^verbatim>\<open>stringToJson\<close> returns for its
  \<^verbatim>\<open>state\<close>; \<open>bodyData\<close> and \<open>bodyState\<close> are the same for \<^verbatim>\<open>handlePOST\<close> and the body of
  the request. The hypotheses only name these values.
\<close>

text \<open>
  C1, as amended. The promise of \<^verbatim>\<open>handleGET\<close> and of \<^verbatim>\<open>handlePOST\<close> resolves with
  \<open>v\<close> if and only if the \<^verbatim>\<open>code\<close> of the payload is present and non-empty, the \<^verbatim>\<open>id\<close>
  of the decoded state is the expected id, as a string, and \<^verbatim>\<open>codeTransform\<close> returns
  \<open>v\<close> for the code (it throws for the code type \<^verbatim>\<open>access_token\<close> and a code that is not
  well-formed JSON). A payload whose code is missing or empty, or whose decoded state is
  not \<^verbatim>\<open>null\<close> and has no \<^verbatim>\<open>id\<close> equal to the expected one (an unparsable state decodes to
  \<^verbatim>\<open>{}\<close>), is rejected with the error of the failed validation.
\<close>

theorem handlers_resolve_iff:
  assumes "queryData = querystring_parse (replace_to_question (url request))"
    and "stringToJson (map_of queryData ''state'') = Inr state"
    and "bodyData = querystring_parse (concat (chunks request))"
    and "stringToJson (map_of bodyData ''state'') = Inr bodyState"
  shows
    "(promise (handleGET request response id' env) = Resolved v \<longleftrightarrow>
        truthy (map_of queryData ''code'') \<and> get_id state = Inr (Some (JStr id'))
        \<and> codeTransform (the (map_of queryData ''code'')) (map_of queryData ''code_type'') = Inr v)
     \<and> (\<not> truthy (map_of queryData ''code'')
          \<or> (\<exists>w. get_id state = Inr w \<and> w \<noteq> Some (JStr id')) \<longrightarrow>
        promise (handleGET request response id' env)
          = Rejected (Error (''error code='' @ ToString (map_of queryData ''code''))))
     \<and> (promise (handlePOST request response id' env) = Resolved v \<longleftrightarrow>
        truthy (map_of bodyData ''code'') \<and> get_id bodyState = Inr (Some (JStr id'))
        \<and> codeTransform (the (map_of bodyData ''code'')) (map_of bodyData ''code_type'') = Inr v)
     \<and> (\<not> truthy (map_of bodyData ''code'')
          \<or> (\<exists>w. get_id bodyState = Inr w \<and> w \<noteq> Some (JStr id')) \<longrightarrow>
        promise (handlePOST request response id' env)
          = Rejected (Error (''error code='' @ ToString (map_of bodyData ''code''))))"
proof -
  have get: "(promise (handleGET request response id' env) = Resolved v \<longleftrightarrow>
        truthy (map_of queryData ''code'') \<and> get_id state = Inr (Some (JStr id'))
        \<and> codeTransform (the (map_of queryData ''code'')) (map_of queryData ''code_type'') = Inr v)"
  proof (cases "code_and_id queryData state id'")
    case (Inl e)
    from handleGET_id_throws[OF assms(1,2) Inl] Inl show ?thesis
      by (auto simp: code_and_id_throws)
  next
    case (Inr b)
    show ?thesis
    proof (cases b)
      case False
      with Inr handleGET_rejects[OF assms(1,2)] show ?thesis
        by (auto simp: code_and_id_False)
    next
      case True
      with Inr have t: "code_and_id queryData state id' = Inr True" by simp
      show ?thesis
      proof (cases "codeTransform (the (map_of queryData ''code'')) (map_of queryData ''code_type'')")
        case (Inl e)
        from handleGET_transform_throws[OF assms(1,2) t Inl] Inl show ?thesis by simp
      next
        case (Inr w)
        from handleGET_resolves[OF assms(1,2) t Inr] Inr t show ?thesis
          by (auto simp: code_and_id_True)
      qed
    qed
  qed
  have get_fail: "promise (handleGET request response id' env)
          = Rejected (Error (''error code='' @ ToString (map_of queryData ''code'')))"
    if "\<not> truthy (map_of queryData ''code'') \<or> (\<exists>w. get_id state = Inr w \<and> w \<noteq> Some (JStr id'))"
  proof -
    from that have "code_and_id queryData state id' = Inr False" by (simp add: code_and_id_False)
    from handleGET_rejects[OF assms(1,2) this] show ?thesis by simp
  qed
  have post: "(promise (handlePOST request response id' env) = Resolved v \<longleftrightarrow>
        truthy (map_of bodyData ''code'') \<and> get_id bodyState = Inr (Some (JStr id'))
        \<and> codeTransform (the (map_of bodyData ''code'')) (map_of bodyData ''code_type'') = Inr v)"
  proof (cases "code_and_id bodyData bodyState id'")
    case (Inl e)
    from handlePOST_id_throws[OF assms(3,4) Inl] Inl show ?thesis
      by (auto simp: code_and_id_throws)
  next
    case (Inr b)
    show ?thesis
    proof (cases b)
      case False
      with Inr handlePOST_rejects[OF assms(3,4)] show ?thesis
        by (auto simp: code_and_id_False)
    next
      case True
      with Inr have t: "code_and_id bodyData bodyState id' = Inr True" by simp
      show ?thesis
      proof (cases "codeTransform (the (map_of bodyData ''code'')) (map_of bodyData ''code_type'')")
        case (Inl e)
        from handlePOST_transform_throws[OF assms(3,4) t Inl] Inl show ?thesis by simp
      next
        case (Inr w)
        from handlePOST_resolves[OF assms(3,4) t Inr] Inr t show ?thesis
          by (auto simp: code_and_id_True)
      qed
    qed
  qed
  have post_fail: "promise (handlePOST request response id' env)
          = Rejected (Error (''error code='' @ ToString (map_of bodyData ''code'')))"
    if "\<not> truthy (map_of bodyData ''code'') \<or> (\<exists>w. get_id bodyState = Inr w \<and> w \<noteq> Some (JStr id'))"
  proof -
    from that have "code_and_id bodyData bodyState id' = Inr False" by (simp add: code_and_id_False)
    from handlePOST_rejects[OF assms(3,4) this] show ?thesis by simp
  qed
  from get get_fail post post_fail show ?thesis by blast
qed


theorem handlers_resolve_iff_witness:
  "promise (handleGET
      \<lparr>url = ''/?code_type=auth_code&code=my-auth-code&state=%7B%22id%22%3A%22abcd%22%7D'',
       chunks = [''code_type=auth_code&code=my-auth-code&state=%7B%22id%22%3A%22abcd%22%7D'']\<rparr>
      [] ''abcd'' None) = Resolved (JStr ''my-auth-code'')
   \<and> promise (handlePOST
      \<lparr>url = ''/?code_type=auth_code&code=my-auth-code&state=%7B%22id%22%3A%22abcd%22%7D'',
       chunks = [''code_type=auth_code&code=my-auth-code&state=%7B%22id%22%3A%22abcd%22%7D'']\<rparr>
      [] ''abcd'' None) = Resolved (JStr ''my-auth-code'')
   \<and> promise (handleGET
      \<lparr>url = ''/?code_type=auth_code&code=my-auth-code&state=%7B%22id%22%3A%22abcd%22%7D'',
       chunks = [''code_type=auth_code&code=my-auth-code&state=%7B%22id%22%3A%22abcd%22%7D'']\<rparr>
      [] ''an-altered-id'' None) = Rejected (Error ''error code=my-auth-code'')
   \<and> promise (handlePOST
      \<lparr>url = ''/?code_type=auth_code&code=my-auth-code&state=%7B%22id%22%3A%22abcd%22%7D'',
       chunks = [''code_type=auth_code&code=my-auth-code&state=%7B%22id%22%3A%22abcd%22%7D'']\<rparr>
      [] ''an-altered-id'' None) = Rejected (Error ''error code=my-auth-code'')"
proof -
  let ?qs = "''code_type=auth_code&code=my-auth-code&state=%7B%22id%22%3A%22abcd%22%7D''"
  let ?req = "\<lparr>url = ''/?'' @ ?qs, chunks = [?qs]\<rparr>"
  let ?qd = "[(''code_type'', QStr ''auth_code''), (''code'', QStr ''my-auth-code''),
              (''state'', QStr ''{\"id\":\"abcd\"}'')]"
  let ?st = "JObj [(''id'', JStr ''abcd'')]"
  have qd: "?qd = querystring_parse (replace_to_question (url ?req))" by code_simp
  have bd: "?qd = querystring_parse (concat (chunks ?req))" by code_simp
  have st: "stringToJson (map_of ?qd ''state'') = Inr ?st" by code_simp
  have ct: "codeTransform (the (map_of ?qd ''code'')) (map_of ?qd ''code_type'') = Inr (JStr ''my-auth-code'')"
    by code_simp
  from handlers_resolve_iff[OF qd st bd st, where id' = "''abcd''" and response = "[]" and env = None
      and v = "JStr ''my-auth-code''"] ct
  have ok: "promise (handleGET ?req [] ''abcd'' None) = Resolved (JStr ''my-auth-code'')"
    "promise (handlePOST ?req [] ''abcd'' None) = Resolved (JStr ''my-auth-code'')"
    by simp_all
  from handlers_resolve_iff[OF qd st bd st, where id' = "''an-altered-id''" and response = "[]"
      and env = None and v = JNull]
  have bad: "promise (handleGET ?req [] ''an-altered-id'' None) = Rejected (Error ''error code=my-auth-code'')"
    "promise (handlePOST ?req [] ''an-altered-id'' None) = Rejected (Error ''error code=my-auth-code'')"
    by simp_all
  from ok bad show ?thesis by simp
qed

text \<open>
  The claim as it was stated fails: the code is present and non-empty and the \<^verbatim>\<open>id\<close> of
  the state is the expected one, yet the promise of \<^verbatim>\<open>handleGET\<close> is rejected with the
  \<^verbatim>\<open>SyntaxError\<close> of \<^verbatim>\<open>JSON.parse\<close>, and that of \<^verbatim>\<open>handlePOST\<close> is never settled.
\<close>

theorem handlers_resolve_iff_counterexample:
  "map_of (querystring_parse (replace_to_question
      ''/?code_type=access_token&code=%7B&state=%7B%22id%22%3A%22abcd%22%7D'')) ''code''
     = Some (QStr ''{'')
   \<and> stringToJson (map_of (querystring_parse (replace_to_question
      ''/?code_type=access_token&code=%7B&state=%7B%22id%22%3A%22abcd%22%7D'')) ''state'')
     = Inr (JObj [(''id'', JStr ''abcd'')])
   \<and> get_id (JObj [(''id'', JStr ''abcd'')]) = Inr (Some (JStr ''abcd''))
   \<and> promise (handleGET
      \<lparr>url = ''/?code_type=access_token&code=%7B&state=%7B%22id%22%3A%22abcd%22%7D'', chunks = []\<rparr>
      [] ''abcd'' None) = Rejected SyntaxError
   \<and> promise (handlePOST
      \<lparr>url = ''/'', chunks = [''code_type=access_token&code=%7B&state=%7B%22id%22%3A%22abcd%22%7D'']\<rparr>
      [] ''abcd'' None) = Pending"
  by code_simp

text \<open>
  C2, as amended. For every payload whose code is missing or empty, or whose decoded state
  is not \<^verbatim>\<open>null\<close> and has no \<^verbatim>\<open>id\<close> equal to the expected one, \<^verbatim>\<open>handleGET\<close> and
  \<^verbatim>\<open>handlePOST\<close> reject the promise with an error whose message is \<^verbatim>\<open>error code=\<close>
  followed by the submitted code (\<^verbatim>\<open>undefined\<close> when there is none), and they assign 400
  to \<^verbatim>\<open>statusCode\<close>. \<^verbatim>\<open>handlePOST\<close> then ends the response with the JSON text of the error,
  and the response is sent with the status 400. \<^verbatim>\<open>handleGET\<close> then sets \<^verbatim>\<open>Cache-Control\<close>,
  calls \<^verbatim>\<open>writeHead(302, {Location: errorUrl})\<close>, where \<^verbatim>\<open>errorUrl\<close> is the error page of the
  environment, and ends the response, so its response is sent with the status 302. These
  are all the calls that the handlers make on the response after those of \<^verbatim>\<open>cors\<close>.
  \<open>cur\<close> is the status code of the response before the handler, and the head of the
  response has not been sent before.
\<close>

theorem handlers_reject_invalid:
  assumes "queryData = querystring_parse (replace_to_question (url request))"
    and "stringToJson (map_of queryData ''state'') = Inr state"
    and "bodyData = querystring_parse (concat (chunks request))"
    and "stringToJson (map_of bodyData ''state'') = Inr bodyState"
  shows
    "(\<not> truthy (map_of queryData ''code'')
        \<or> (\<exists>w. get_id state = Inr w \<and> w \<noteq> Some (JStr id')) \<longrightarrow>
      promise (handleGET request response id' env)
        = Rejected (Error (''error code='' @ ToString (map_of queryData ''code'')))
      \<and> Call (SetStatusCode 400) \<in> set (events (handleGET request response id' env))
      \<and> (\<exists>response1. cors response env = Inr response1
           \<and> calls_of (events (handleGET request response id' env))
             = response1 @
               [SetStatusCode 400,
                SetHeader ''Cache-Control'' ''private, no-cache'',
                WriteHead 302 [(''Location'', IMS_CLI_OAUTH_URL (env_or_default env)
                  @ ''/error?message=An error occurred in the cli.'')],
                End None])
      \<and> (status_sent cur response = None \<longrightarrow>
           status_sent cur (calls_of (events (handleGET request response id' env))) = Some 302))
     \<and> (\<not> truthy (map_of bodyData ''code'')
        \<or> (\<exists>w. get_id bodyState = Inr w \<and> w \<noteq> Some (JStr id')) \<longrightarrow>
      promise (handlePOST request response id' env)
        = Rejected (Error (''error code='' @ ToString (map_of bodyData ''code'')))
      \<and> Call (SetStatusCode 400) \<in> set (events (handlePOST request response id' env))
      \<and> (\<exists>response1. cors response env = Inr response1
           \<and> calls_of (events (handlePOST request response id' env))
             = response1 @
               [SetStatusCode 400,
                End (Some (JSON_stringify (createJsonResponse
                  (Some (IMS_CLI_OAUTH_URL (env_or_default env)
                     @ ''/error?message=An error occurred in the cli.''))
                  (Some ''An error occurred in the cli.'') (Some True))))])
      \<and> (status_sent cur response = None \<longrightarrow>
           status_sent cur (calls_of (events (handlePOST request response id' env))) = Some 400))"
proof (intro conjI impI)
  assume "\<not> truthy (map_of queryData ''code'') \<or> (\<exists>w. get_id state = Inr w \<and> w \<noteq> Some (JStr id'))"
  then have f: "code_and_id queryData state id' = Inr False" by (simp add: code_and_id_False)
  note h = handleGET_rejects[OF assms(1,2) f]
  show "promise (handleGET request response id' env)
        = Rejected (Error (''error code='' @ ToString (map_of queryData ''code'')))"
    by (simp add: h)
  show "Call (SetStatusCode 400) \<in> set (events (handleGET request response id' env))"
    by (simp add: h)
  show "\<exists>response1. cors response env = Inr response1
           \<and> calls_of (events (handleGET request response id' env))
             = response1 @
               [SetStatusCode 400,
                SetHeader ''Cache-Control'' ''private, no-cache'',
                WriteHead 302 [(''Location'', IMS_CLI_OAUTH_URL (env_or_default env)
                  @ ''/error?message=An error occurred in the cli.'')],
                End None]"
    by (simp add: h cors_Inr calls_of_calls error_message_def)
  show "status_sent cur (calls_of (events (handleGET request response id' env))) = Some 302"
    if "status_sent cur response = None"
    using status_sent_after_cors[OF that] by (simp add: h calls_of_calls)
next
  assume "\<not> truthy (map_of bodyData ''code'') \<or> (\<exists>w. get_id bodyState = Inr w \<and> w \<noteq> Some (JStr id'))"
  then have f: "code_and_id bodyData bodyState id' = Inr False" by (simp add: code_and_id_False)
  note h = handlePOST_rejects[OF assms(3,4) f]
  show "promise (handlePOST request response id' env)
        = Rejected (Error (''error code='' @ ToString (map_of bodyData ''code'')))"
    by (simp add: h)
  show "Call (SetStatusCode 400) \<in> set (events (handlePOST request response id' env))"
    by (simp add: h)
  show "\<exists>response1. cors response env = Inr response1
           \<and> calls_of (events (handlePOST request response id' env))
             = response1 @
               [SetStatusCode 400,
                End (Some (JSON_stringify (createJsonResponse
                  (Some (IMS_CLI_OAUTH_URL (env_or_default env)
                     @ ''/error?message=An error occurred in the cli.''))
                  (Some ''An error occurred in the cli.'') (Some True))))]"
    by (simp add: h cors_Inr calls_of_calls error_message_def)
  show "status_sent cur (calls_of (events (handlePOST request response id' env))) = Some 400"
    if "status_sent cur response = None"
    using status_sent_after_cors[OF that] by (simp add: h calls_of_calls)
qed


theorem handlers_reject_invalid_witness:
  "promise (handleGET
      \<lparr>url = ''/?code_type=auth_code&code=my-auth-code&state=%7B%22id%22%3A%22abcd%22%7D'',
       chunks = [''code_type=auth_code&state=%7B'']\<rparr>
      [] ''an-altered-id'' None) = Rejected (Error ''error code=my-auth-code'')
   \<and> calls_of (events (handleGET
      \<lparr>url = ''/?code_type=auth_code&code=my-auth-code&state=%7B%22id%22%3A%22abcd%22%7D'',
       chunks = [''code_type=auth_code&state=%7B'']\<rparr>
      [] ''an-altered-id'' None))
     = [SetHeader ''Content-Type'' ''text/plain'',
        SetHeader ''Access-Control-Allow-Origin'' ''https://aio-login.adobeioruntime.net'',
        SetHeader ''Access-Control-Request-Method'' ''*'',
        SetHeader ''Access-Control-Allow-Methods'' ''OPTIONS, POST'',
        SetHeader ''Access-Control-Allow-Headers'' ''*'',
        SetStatusCode 400,
        SetHeader ''Cache-Control'' ''private, no-cache'',
        WriteHead 302 [(''Location'',
          ''https://aio-login.adobeioruntime.net/api/v1/web/default/applogin/error?message=An error occurred in the cli.'')],
        End None]
   \<and> status_sent 200 (calls_of (events (handleGET
      \<lparr>url = ''/?code_type=auth_code&code=my-auth-code&state=%7B%22id%22%3A%22abcd%22%7D'',
       chunks = [''code_type=auth_code&state=%7B'']\<rparr>
      [] ''an-altered-id'' None))) = Some 302
   \<and> promise (handlePOST
      \<lparr>url = ''/?code_type=auth_code&code=my-auth-code&state=%7B%22id%22%3A%22abcd%22%7D'',
       chunks = [''code_type=auth_code&state=%7B'']\<rparr>
      [] ''an-altered-id'' None) = Rejected (Error ''error code=undefined'')
   \<and> calls_of (events (handlePOST
      \<lparr>url = ''/?code_type=auth_code&code=my-auth-code&state=%7B%22id%22%3A%22abcd%22%7D'',
       chunks = [''code_type=auth_code&state=%7B'']\<rparr>
      [] ''an-altered-id'' None))
     = [SetHeader ''Content-Type'' ''text/plain'',
        SetHeader ''Access-Control-Allow-Origin'' ''https://aio-login.adobeioruntime.net'',
        SetHeader ''Access-Control-Request-Method'' ''*'',
        SetHeader ''Access-Control-Allow-Methods'' ''OPTIONS, POST'',
        SetHeader ''Access-Control-Allow-Headers'' ''*'',
        SetStatusCode 400,
        End (Some ''{\"protocol_version\":2,\"redirect\":\"https://aio-login.adobeioruntime.net/api/v1/web/default/applogin/error?message=An error occurred in the cli.\",\"error\":true,\"message\":\"An error occurred in the cli.\"}'')]
   \<and> status_sent 200 (calls_of (events (handlePOST
      \<lparr>url = ''/?code_type=auth_code&code=my-auth-code&state=%7B%22id%22%3A%22abcd%22%7D'',
       chunks = [''code_type=auth_code&state=%7B'']\<rparr>
      [] ''an-altered-id'' None))) = Some 400"
proof -
  let ?req = "\<lparr>url = ''/?code_type=auth_code&code=my-auth-code&state=%7B%22id%22%3A%22abcd%22%7D'',
       chunks = [''code_type=auth_code&state=%7B'']\<rparr>"
  let ?qd = "[(''code_type'', QStr ''auth_code''), (''code'', QStr ''my-auth-code''),
              (''state'', QStr ''{\"id\":\"abcd\"}'')]"
  let ?bd = "[(''code_type'', QStr ''auth_code''), (''state'', QStr ''{'')]"
  have qd: "?qd = querystring_parse (replace_to_question (url ?req))" by code_simp
  have bd: "?bd = querystring_parse (concat (chunks ?req))" by code_simp
  have st: "stringToJson (map_of ?qd ''state'') = Inr (JObj [(''id'', JStr ''abcd'')])" by code_simp
  have bst: "stringToJson (map_of ?bd ''state'') = Inr (JObj [])" by code_simp
  have fresh: "status_sent 200 ([] :: call list) = None" by simp
  have headers: "cors [] None
      = Inr [SetHeader ''Content-Type'' ''text/plain'',
             SetHeader ''Access-Control-Allow-Origin'' ''https://aio-login.adobeioruntime.net'',
             SetHeader ''Access-Control-Request-Method'' ''*'',
             SetHeader ''Access-Control-Allow-Methods'' ''OPTIONS, POST'',
             SetHeader ''Access-Control-Allow-Headers'' ''*'']"
    by code_simp
  have page: "IMS_CLI_OAUTH_URL (env_or_default None) @ ''/error?message=An error occurred in the cli.''
      = ''https://aio-login.adobeioruntime.net/api/v1/web/default/applogin/error?message=An error occurred in the cli.''"
    by code_simp
  have body: "JSON_stringify (createJsonResponse
      (Some ''https://aio-login.adobeioruntime.net/api/v1/web/default/applogin/error?message=An error occurred in the cli.'')
      (Some ''An error occurred in the cli.'') (Some True))
      = ''{\"protocol_version\":2,\"redirect\":\"https://aio-login.adobeioruntime.net/api/v1/web/default/applogin/error?message=An error occurred in the cli.\",\"error\":true,\"message\":\"An error occurred in the cli.\"}''"
    by code_simp
  from handlers_reject_invalid[OF qd st bd bst, where id' = "''an-altered-id''" and response = "[]"
      and env = None and cur = 200] fresh headers
  show ?thesis by (simp add: page body)
qed

text \<open>
  The claim as it was stated fails for \<^verbatim>\<open>handleGET\<close>: the response of the failed
  validation is sent with the status 302 of the redirect, not with 400.
\<close>

theorem handlers_reject_invalid_counterexample:
  "promise (handleGET
      \<lparr>url = ''/?code_type=auth_code&code=my-auth-code&state=%7B%22id%22%3A%22abcd%22%7D'', chunks = []\<rparr>
      [] ''an-altered-id'' None) = Rejected (Error ''error code=my-auth-code'')
   \<and> status_sent 200 (calls_of (events (handleGET
      \<lparr>url = ''/?code_type=auth_code&code=my-auth-code&state=%7B%22id%22%3A%22abcd%22%7D'', chunks = []\<rparr>
      [] ''an-altered-id'' None))) = Some 302"
  by code_simp

text \<open>
  C3, as amended. In the failure branch of \<^verbatim>\<open>handleGET\<close> and of \<^verbatim>\<open>handlePOST\<close>, and in
  the success branch when \<^verbatim>\<open>codeTransform\<close> returns, \<^verbatim>\<open>done\<close> is called exactly once, after
  the response has been ended. When \<^verbatim>\<open>codeTransform\<close> throws in the success branch,
  \<^verbatim>\<open>done\<close> is not called and the only calls on the response are those of \<^verbatim>\<open>cors\<close>:
  it is not ended.
\<close>

theorem done_once_when_validated:
  assumes "queryData = querystring_parse (replace_to_question (url request))"
    and "stringToJson (map_of queryData ''state'') = Inr state"
    and "bodyData = querystring_parse (concat (chunks request))"
    and "stringToJson (map_of bodyData ''state'') = Inr bodyState"
  shows
    "(\<not> truthy (map_of queryData ''code'')
        \<or> (\<exists>w. get_id state = Inr w \<and> w \<noteq> Some (JStr id'))
        \<or> (\<exists>v. codeTransform (the (map_of queryData ''code'')) (map_of queryData ''code_type'') = Inr v
              \<and> get_id state = Inr (Some (JStr id'))) \<longrightarrow>
      done_once_after_end (events (handleGET request response id' env)))
     \<and> (truthy (map_of queryData ''code'') \<and> get_id state = Inr (Some (JStr id'))
        \<and> (\<exists>e. codeTransform (the (map_of queryData ''code'')) (map_of queryData ''code_type'') = Inl e) \<longrightarrow>
      Done \<notin> set (events (handleGET request response id' env))
      \<and> Inr (calls_of (events (handleGET request response id' env))) = cors response env)
     \<and> (\<not> truthy (map_of bodyData ''code'')
        \<or> (\<exists>w. get_id bodyState = Inr w \<and> w \<noteq> Some (JStr id'))
        \<or> (\<exists>v. codeTransform (the (map_of bodyData ''code'')) (map_of bodyData ''code_type'') = Inr v
              \<and> get_id bodyState = Inr (Some (JStr id'))) \<longrightarrow>
      done_once_after_end (events (handlePOST request response id' env)))
     \<and> (truthy (map_of bodyData ''code'') \<and> get_id bodyState = Inr (Some (JStr id'))
        \<and> (\<exists>e. codeTransform (the (map_of bodyData ''code'')) (map_of bodyData ''code_type'') = Inl e) \<longrightarrow>
      Done \<notin> set (events (handlePOST request response id' env))
      \<and> Inr (calls_of (events (handlePOST request response id' env))) = cors response env)"
proof -
  have get: "done_once_after_end (events (handleGET request response id' env))"
    if "\<not> truthy (map_of queryData ''code'')
        \<or> (\<exists>w. get_id state = Inr w \<and> w \<noteq> Some (JStr id'))
        \<or> (\<exists>v. codeTransform (the (map_of queryData ''code'')) (map_of queryData ''code_type'') = Inr v
              \<and> get_id state = Inr (Some (JStr id')))"
  proof (cases "code_and_id queryData state id'")
    case (Inl e)
    with that show ?thesis by (auto simp: code_and_id_throws)
  next
    case (Inr b)
    show ?thesis
    proof (cases b)
      case False
      with Inr handleGET_rejects[OF assms(1,2)] show ?thesis
        by (simp add: done_once_after_end_def filter_Done_calls takeWhile_Done_calls)
    next
      case True
      with Inr have t: "code_and_id queryData state id' = Inr True" by simp
      with that obtain v where
        "codeTransform (the (map_of queryData ''code'')) (map_of queryData ''code_type'') = Inr v"
        by (auto simp: code_and_id_True)
      from handleGET_resolves[OF assms(1,2) t this] show ?thesis
        by (simp add: done_once_after_end_def filter_Done_calls takeWhile_Done_calls)
    qed
  qed
  have get_throw: "Done \<notin> set (events (handleGET request response id' env))
      \<and> Inr (calls_of (events (handleGET request response id' env))) = cors response env"
    if "truthy (map_of queryData ''code'') \<and> get_id state = Inr (Some (JStr id'))
        \<and> (\<exists>e. codeTransform (the (map_of queryData ''code'')) (map_of queryData ''code_type'') = Inl e)"
  proof -
    from that have t: "code_and_id queryData state id' = Inr True" by (simp add: code_and_id_True)
    from that obtain e where
      "codeTransform (the (map_of queryData ''code'')) (map_of queryData ''code_type'') = Inl e"
      by blast
    from handleGET_transform_throws[OF assms(1,2) t this] calls_of_calls[of "response @ cors_calls" "[]"]
    show ?thesis by (auto simp: cors_Inr)
  qed
  have post: "done_once_after_end (events (handlePOST request response id' env))"
    if "\<not> truthy (map_of bodyData ''code'')
        \<or> (\<exists>w. get_id bodyState = Inr w \<and> w \<noteq> Some (JStr id'))
        \<or> (\<exists>v. codeTransform (the (map_of bodyData ''code'')) (map_of bodyData ''code_type'') = Inr v
              \<and> get_id bodyState = Inr (Some (JStr id')))"
  proof (cases "code_and_id bodyData bodyState id'")
    case (Inl e)
    with that show ?thesis by (auto simp: code_and_id_throws)
  next
    case (Inr b)
    show ?thesis
    proof (cases b)
      case False
      with Inr handlePOST_rejects[OF assms(3,4)] show ?thesis
        by (simp add: done_once_after_end_def filter_Done_calls takeWhile_Done_calls)
    next
      case True
      with Inr have t: "code_and_id bodyData bodyState id' = Inr True" by simp
      with that obtain v where
        "codeTransform (the (map_of bodyData ''code'')) (map_of bodyData ''code_type'') = Inr v"
        by (auto simp: code_and_id_True)
      from handlePOST_resolves[OF assms(3,4) t this] show ?thesis
        by (simp add: done_once_after_end_def filter_Done_calls takeWhile_Done_calls)
    qed
  qed
  have post_throw: "Done \<notin> set (events (handlePOST request response id' env))
      \<and> Inr (calls_of (events (handlePOST request response id' env))) = cors response env"
    if "truthy (map_of bodyData ''code'') \<and> get_id bodyState = Inr (Some (JStr id'))
        \<and> (\<exists>e. codeTransform (the (map_of bodyData ''code'')) (map_of bodyData ''code_type'') = Inl e)"
  proof -
    from that have t: "code_and_id bodyData bodyState id' = Inr True" by (simp add: code_and_id_True)
    from that obtain e where
      "codeTransform (the (map_of bodyData ''code'')) (map_of bodyData ''code_type'') = Inl e"
      by blast
    from handlePOST_transform_throws[OF assms(3,4) t this] calls_of_calls[of "response @ cors_calls" "[]"]
    show ?thesis by (auto simp: cors_Inr)
  qed
  from get get_throw post post_throw show ?thesis by blast
qed


theorem done_once_when_validated_witness:
  "done_once_after_end (events (handleGET
      \<lparr>url = ''/?code_type=auth_code&code=my-auth-code&state=%7B%22id%22%3A%22abcd%22%7D'',
       chunks = [''code_type=access_token&code=%7B&state=%7B%22id%22%3A%22abcd%22%7D'']\<rparr>
      [] ''abcd'' None))
   \<and> done_once_after_end (events (handleGET
      \<lparr>url = ''/?code_type=auth_code&code=my-auth-code&state=%7B%22id%22%3A%22abcd%22%7D'',
       chunks = [''code_type=access_token&code=%7B&state=%7B%22id%22%3A%22abcd%22%7D'']\<rparr>
      [] ''an-altered-id'' None))
   \<and> done_once_after_end (events (handlePOST
      \<lparr>url = ''/?code_type=auth_code&code=my-auth-code&state=%7B%22id%22%3A%22abcd%22%7D'',
       chunks = [''code_type=access_token&code=%7B&state=%7B%22id%22%3A%22abcd%22%7D'']\<rparr>
      [] ''an-altered-id'' None))
   \<and> Done \<notin> set (events (handlePOST
      \<lparr>url = ''/?code_type=auth_code&code=my-auth-code&state=%7B%22id%22%3A%22abcd%22%7D'',
       chunks = [''code_type=access_token&code=%7B&state=%7B%22id%22%3A%22abcd%22%7D'']\<rparr>
      [] ''abcd'' None))"
proof -
  let ?req = "\<lparr>url = ''/?code_type=auth_code&code=my-auth-code&state=%7B%22id%22%3A%22abcd%22%7D'',
       chunks = [''code_type=access_token&code=%7B&state=%7B%22id%22%3A%22abcd%22%7D'']\<rparr>"
  let ?qd = "[(''code_type'', QStr ''auth_code''), (''code'', QStr ''my-auth-code''),
              (''state'', QStr ''{\"id\":\"abcd\"}'')]"
  let ?bd = "[(''code_type'', QStr ''access_token''), (''code'', QStr ''{''),
              (''state'', QStr ''{\"id\":\"abcd\"}'')]"
  let ?st = "JObj [(''id'', JStr ''abcd'')]"
  have qd: "?qd = querystring_parse (replace_to_question (url ?req))" by code_simp
  have bd: "?bd = querystring_parse (concat (chunks ?req))" by code_simp
  have st: "stringToJson (map_of ?qd ''state'') = Inr ?st" by code_simp
  have bst: "stringToJson (map_of ?bd ''state'') = Inr ?st" by code_simp
  have ct: "codeTransform (the (map_of ?qd ''code'')) (map_of ?qd ''code_type'') = Inr (JStr ''my-auth-code'')"
    by code_simp
  have bct: "codeTransform (the (map_of ?bd ''code'')) (map_of ?bd ''code_type'') = Inl SyntaxError"
    by code_simp
  from done_once_when_validated[OF qd st bd bst, where id' = "''abcd''" and response = "[]"
      and env = None] ct bct
  have same: "done_once_after_end (events (handleGET ?req [] ''abcd'' None))"
    "Done \<notin> set (events (handlePOST ?req [] ''abcd'' None))"
    by simp_all
  from done_once_when_validated[OF qd st bd bst, where id' = "''an-altered-id''" and response = "[]"
      and env = None]
  have other: "done_once_after_end (events (handleGET ?req [] ''an-altered-id'' None))"
    "done_once_after_end (events (handlePOST ?req [] ''an-altered-id'' None))"
    by simp_all
  from same other show ?thesis by simp
qed

text \<open>
  The claim as it was stated fails: the request reaches the success branch, where
  \<^verbatim>\<open>codeTransform\<close> throws before anything else is done, so the response is never ended
  and \<^verbatim>\<open>done\<close> is never called.
\<close>

theorem done_once_when_validated_counterexample:
  "\<not> done_once_after_end (events (handleGET
      \<lparr>url = ''/?code_type=access_token&code=%7B&state=%7B%22id%22%3A%22abcd%22%7D'', chunks = []\<rparr>
      [] ''abcd'' None))
   \<and> Done \<notin> set (events (handleGET
      \<lparr>url = ''/?code_type=access_token&code=%7B&state=%7B%22id%22%3A%22abcd%22%7D'', chunks = []\<rparr>
      [] ''abcd'' None))
   \<and> \<not> done_once_after_end (events (handlePOST
      \<lparr>url = ''/'', chunks = [''code_type=access_token&code=%7B&state=%7B%22id%22%3A%22abcd%22%7D'']\<rparr>
      [] ''abcd'' None))"
  by code_simp

text \<open>
  C6, as amended. For every code that is not well-formed JSON (\<^verbatim>\<open>JSON.parse\<close> throws \<open>e\<close>
  on it), \<^verbatim>\<open>codeTransform\<close> with the code type \<^verbatim>\<open>access_token\<close> throws \<open>e\<close>, where
  \<^verbatim>\<open>stringToJson\<close> returns \<^verbatim>\<open>{}\<close> for the same text. When a request carries such a code
  with the code type \<^verbatim>\<open>access_token\<close> and the state has the expected id, neither handler
  produces the response of a failed validation: the only calls on the response are those
  of \<^verbatim>\<open>cors\<close>, and \<^verbatim>\<open>done\<close> is not called. In \<^verbatim>\<open>handleGET\<close> the error is thrown in the
  executor of the promise, so the promise is rejected with \<open>e\<close> and the error reaches the
  caller. In \<^verbatim>\<open>handlePOST\<close> it is thrown in the listener of \<^verbatim>\<open>end\<close>, after the promise has
  been returned: the promise stays pending and the error reaches no caller.
\<close>

theorem malformed_access_token_propagates:
  assumes "JSON_parse code = Inl e"
  shows
    "codeTransform (QStr code) (Some (QStr ''access_token'')) = Inl e
     \<and> stringToJson (Some (QStr code)) = Inr (JObj [])
     \<and> (queryData = querystring_parse (replace_to_question (url request))
        \<and> map_of queryData ''code'' = Some (QStr code) \<and> code \<noteq> []
        \<and> map_of queryData ''code_type'' = Some (QStr ''access_token'')
        \<and> stringToJson (map_of queryData ''state'') = Inr state
        \<and> get_id state = Inr (Some (JStr id')) \<longrightarrow>
      promise (handleGET request response id' env) = Rejected e
      \<and> unhandled (handleGET request response id' env) = None
      \<and> Inr (calls_of (events (handleGET request response id' env))) = cors response env
      \<and> Done \<notin> set (events (handleGET request response id' env)))
     \<and> (bodyData = querystring_parse (concat (chunks request))
        \<and> map_of bodyData ''code'' = Some (QStr code) \<and> code \<noteq> []
        \<and> map_of bodyData ''code_type'' = Some (QStr ''access_token'')
        \<and> stringToJson (map_of bodyData ''state'') = Inr bodyState
        \<and> get_id bodyState = Inr (Some (JStr id')) \<longrightarrow>
      promise (handlePOST request response id' env) = Pending
      \<and> unhandled (handlePOST request response id' env) = Some e
      \<and> Inr (calls_of (events (handlePOST request response id' env))) = cors response env
      \<and> Done \<notin> set (events (handlePOST request response id' env)))"
proof (intro conjI impI)
  show ct: "codeTransform (QStr code) (Some (QStr ''access_token'')) = Inl e"
    using assms by (simp add: codeTransform_def)
  show "stringToJson (Some (QStr code)) = Inr (JObj [])"
    using assms by (simp add: stringToJson_def)
  {
    assume h: "queryData = querystring_parse (replace_to_question (url request))
          \<and> map_of queryData ''code'' = Some (QStr code) \<and> code \<noteq> []
          \<and> map_of queryData ''code_type'' = Some (QStr ''access_token'')
          \<and> stringToJson (map_of queryData ''state'') = Inr state
          \<and> get_id state = Inr (Some (JStr id'))"
    from h have qd: "queryData = querystring_parse (replace_to_question (url request))"
      and st: "stringToJson (map_of queryData ''state'') = Inr state"
      by blast+
    from h have t: "code_and_id queryData state id' = Inr True"
      unfolding code_and_id_True by auto
    from h ct have c: "codeTransform (the (map_of queryData ''code'')) (map_of queryData ''code_type'') = Inl e"
      by auto
    note r = handleGET_transform_throws[OF qd st t c]
    show "promise (handleGET request response id' env) = Rejected e" by (simp add: r)
    show "unhandled (handleGET request response id' env) = None" by (simp add: r)
    show "Inr (calls_of (events (handleGET request response id' env))) = cors response env"
      using calls_of_calls[of "response @ cors_calls" "[]"] by (simp add: r cors_Inr)
    show "Done \<notin> set (events (handleGET request response id' env))" by (auto simp: r)
  }
  {
    assume h: "bodyData = querystring_parse (concat (chunks request))
          \<and> map_of bodyData ''code'' = Some (QStr code) \<and> code \<noteq> []
          \<and> map_of bodyData ''code_type'' = Some (QStr ''access_token'')
          \<and> stringToJson (map_of bodyData ''state'') = Inr bodyState
          \<and> get_id bodyState = Inr (Some (JStr id'))"
    from h have qd: "bodyData = querystring_parse (concat (chunks request))"
      and st: "stringToJson (map_of bodyData ''state'') = Inr bodyState"
      by blast+
    from h have t: "code_and_id bodyData bodyState id' = Inr True"
      unfolding code_and_id_True by auto
    from h ct have c: "codeTransform (the (map_of bodyData ''code'')) (map_of bodyData ''code_type'') = Inl e"
      by auto
    note r = handlePOST_transform_throws[OF qd st t c]
    show "promise (handlePOST request response id' env) = Pending" by (simp add: r)
    show "unhandled (handlePOST request response id' env) = Some e" by (simp add: r)
    show "Inr (calls_of (events (handlePOST request response id' env))) = cors response env"
      using calls_of_calls[of "response @ cors_calls" "[]"] by (simp add: r cors_Inr)
    show "Done \<notin> set (events (handlePOST request response id' env))" by (auto simp: r)
  }
qed

theorem malformed_access_token_propagates_witness:
  "codeTransform (QStr ''{'') (Some (QStr ''access_token'')) = Inl SyntaxError
   \<and> stringToJson (Some (QStr ''{'')) = Inr (JObj [])
   \<and> promise (handleGET
      \<lparr>url = ''/?code_type=access_token&code=%7B&state=%7B%22id%22%3A%22abcd%22%7D'',
       chunks = [''code_type=access_token&code=%7B&state=%7B%22id%22%3A%22abcd%22%7D'']\<rparr>
      [] ''abcd'' None) = Rejected SyntaxError
   \<and> Done \<notin> set (events (handleGET
      \<lparr>url = ''/?code_type=access_token&code=%7B&state=%7B%22id%22%3A%22abcd%22%7D'',
       chunks = [''code_type=access_token&code=%7B&state=%7B%22id%22%3A%22abcd%22%7D'']\<rparr>
      [] ''abcd'' None))
   \<and> promise (handlePOST
      \<lparr>url = ''/?code_type=access_token&code=%7B&state=%7B%22id%22%3A%22abcd%22%7D'',
       chunks = [''code_type=access_token&code=%7B&state=%7B%22id%22%3A%22abcd%22%7D'']\<rparr>
      [] ''abcd'' None) = Pending
   \<and> unhandled (handlePOST
      \<lparr>url = ''/?code_type=access_token&code=%7B&state=%7B%22id%22%3A%22abcd%22%7D'',
       chunks = [''code_type=access_token&code=%7B&state=%7B%22id%22%3A%22abcd%22%7D'']\<rparr>
      [] ''abcd'' None) = Some SyntaxError
   \<and> Done \<notin> set (events (handlePOST
      \<lparr>url = ''/?code_type=access_token&code=%7B&state=%7B%22id%22%3A%22abcd%22%7D'',
       chunks = [''code_type=access_token&code=%7B&state=%7B%22id%22%3A%22abcd%22%7D'']\<rparr>
      [] ''abcd'' None))"
proof -
  let ?req = "\<lparr>url = ''/?code_type=access_token&code=%7B&state=%7B%22id%22%3A%22abcd%22%7D'',
       chunks = [''code_type=access_token&code=%7B&state=%7B%22id%22%3A%22abcd%22%7D'']\<rparr>"
  let ?qd = "[(''code_type'', QStr ''access_token''), (''code'', QStr ''{''),
              (''state'', QStr ''{\"id\":\"abcd\"}'')]"
  have malformed: "JSON_parse ''{'' = Inl SyntaxError" by code_simp
  have qd: "?qd = querystring_parse (replace_to_question (url ?req))" by code_simp
  have bd: "?qd = querystring_parse (concat (chunks ?req))" by code_simp
  have st: "stringToJson (map_of ?qd ''state'') = Inr (JObj [(''id'', JStr ''abcd'')])" by code_simp
  have get: "?qd = querystring_parse (replace_to_question (url ?req))
        \<and> map_of ?qd ''code'' = Some (QStr ''{'') \<and> ''{'' \<noteq> []
        \<and> map_of ?qd ''code_type'' = Some (QStr ''access_token'')
        \<and> stringToJson (map_of ?qd ''state'') = Inr (JObj [(''id'', JStr ''abcd'')])
        \<and> get_id (JObj [(''id'', JStr ''abcd'')]) = Inr (Some (JStr ''abcd''))"
    by (intro conjI) (rule qd, simp, simp, simp, rule st, simp)
  have post: "?qd = querystring_parse (concat (chunks ?req))
        \<and> map_of ?qd ''code'' = Some (QStr ''{'') \<and> ''{'' \<noteq> []
        \<and> map_of ?qd ''code_type'' = Some (QStr ''access_token'')
        \<and> stringToJson (map_of ?qd ''state'') = Inr (JObj [(''id'', JStr ''abcd'')])
        \<and> get_id (JObj [(''id'', JStr ''abcd'')]) = Inr (Some (JStr ''abcd''))"
    by (intro conjI) (rule bd, simp, simp, simp, rule st, simp)
  from malformed_access_token_propagates[OF malformed, where queryData = ?qd and bodyData = ?qd
      and request = ?req and state = "JObj [(''id'', JStr ''abcd'')]"
      and bodyState = "JObj [(''id'', JStr ''abcd'')]" and id' = "''abcd''" and response = "[]"
      and env = None]
    get post
  show ?thesis by blast
qed

text \<open>
  The claim as it was stated fails for \<^verbatim>\<open>handlePOST\<close>: the error of the malformed access
  token does not reach the caller of the handler, whose promise is neither rejected nor
  resolved.
\<close>

theorem malformed_access_token_propagates_counterexample:
  "JSON_parse ''{'' = Inl SyntaxError
   \<and> promise (handlePOST
      \<lparr>url = ''/'', chunks = [''code_type=access_token&code=%7B&state=%7B%22id%22%3A%22abcd%22%7D'']\<rparr>
      [] ''abcd'' None) = Pending
   \<and> unhandled (handlePOST
      \<lparr>url = ''/'', chunks = [''code_type=access_token&code=%7B&state=%7B%22id%22%3A%22abcd%22%7D'']\<rparr>
      [] ''abcd'' None) = Some SyntaxError"
  by code_simp

subsection \<open>\<^verbatim>\<open>authSiteUrl\<close> and \<^verbatim>\<open>cors\<close>\<close>

text \<open>
  C7. For every object of query parameters (its keys are distinct) and for the
  environments \<^verbatim>\<open>prod\<close> and \<^verbatim>\<open>stage\<close>, \<^verbatim>\<open>prod\<close> when the argument is left out,
  \<^verbatim>\<open>authSiteUrl\<close> returns the base URL of the environment followed by the query that
  holds exactly the entries whose value is neither \<^verbatim>\<open>undefined\<close> nor \<^verbatim>\<open>null\<close>, in the
  order of the object; the other entries are left out, not written as empty strings.
  With no entry left there is no query at all.
\<close>

theorem authSiteUrl_sets_defined_params:
  assumes "distinct (map fst queryParams)"
  shows "authSiteUrl queryParams env
    = Inr (IMS_CLI_OAUTH_URL (env_or_default env)
           @ (if defined_params queryParams = [] then []
              else CHR ''?'' # urlencoded (defined_params queryParams)))"
proof -
  let ?u = "\<lparr>origin = ''https://aio-login.adobeioruntime.net'',
            pathname = drop 36 (IMS_CLI_OAUTH_URL (env_or_default env)), searchParams = []\<rparr>"
  have "fold (\<lambda>key uri.
             case map_of ([] @ queryParams) key of
               Some (Value v) \<Rightarrow> uri\<lparr>searchParams := searchParams_set (searchParams uri) key v\<rparr>
             | _ \<Rightarrow> uri)
           (map fst queryParams) ?u
         = ?u\<lparr>searchParams := defined_params ([] @ queryParams)\<rparr>"
    using assms by (intro fold_set_params) simp_all
  then show ?thesis
    using table_origin_path[of "env_or_default env"]
    by (simp add: authSiteUrl_def URL_new_table href_def)
qed

theorem authSiteUrl_sets_defined_params_witness:
  "authSiteUrl [(''a'', Value ''b''), (''c'', Value ''d''), (''e'', Undefined), (''f'', Null)] (Some prod)
     = Inr ''https://aio-login.adobeioruntime.net/api/v1/web/default/applogin?a=b&c=d''
   \<and> authSiteUrl [(''a'', Value ''b''), (''c'', Value ''d''), (''e'', Undefined), (''f'', Null)] None
     = Inr ''https://aio-login.adobeioruntime.net/api/v1/web/default/applogin?a=b&c=d''
   \<and> authSiteUrl [(''a'', Value ''b''), (''c'', Value ''d''), (''e'', Undefined), (''f'', Null)] (Some stage)
     = Inr ''https://aio-login.adobeioruntime.net/api/v1/web/default/applogin-stage?a=b&c=d''
   \<and> authSiteUrl [(''e'', Undefined), (''f'', Null)] None
     = Inr ''https://aio-login.adobeioruntime.net/api/v1/web/default/applogin''"
proof -
  let ?ps = "[(''a'', Value ''b''), (''c'', Value ''d''), (''e'', Undefined), (''f'', Null)]"
  have d: "distinct (map fst ?ps)" "distinct (map fst [(''e'', Undefined), (''f'', Null)])" by simp_all
  have enc: "urlencoded [(''a'', ''b''), (''c'', ''d'')] = ''a=b&c=d''" by code_simp
  from authSiteUrl_sets_defined_params[OF d(1), of "Some prod"]
    authSiteUrl_sets_defined_params[OF d(1), of None]
    authSiteUrl_sets_defined_params[OF d(1), of "Some stage"]
    authSiteUrl_sets_defined_params[OF d(2), of None] enc
  show ?thesis by (simp add: env_or_default_def DEFAULT_ENV_def)
qed

text \<open>
  C8. For every response and for the environments \<^verbatim>\<open>prod\<close> and \<^verbatim>\<open>stage\<close>, \<^verbatim>\<open>prod\<close>
  when the argument is left out, \<^verbatim>\<open>cors\<close> returns the response it was given with five
  more headers set: \<^verbatim>\<open>Content-Type: text/plain\<close>, \<^verbatim>\<open>Access-Control-Allow-Origin\<close> with
  the origin of the base URL of the environment, which is
  \<^verbatim>\<open>https://aio-login.adobeioruntime.net\<close> and never the wildcard,
  \<^verbatim>\<open>Access-Control-Request-Method: *\<close>, \<^verbatim>\<open>Access-Control-Allow-Methods: OPTIONS, POST\<close>
  and \<^verbatim>\<open>Access-Control-Allow-Headers: *\<close>.
\<close>

theorem cors_sets_headers:
  "(\<exists>u. URL_new (IMS_CLI_OAUTH_URL (env_or_default env)) = Inr u
        \<and> origin u = ''https://aio-login.adobeioruntime.net''
        \<and> origin u \<noteq> ''*''
        \<and> cors response env
          = Inr (response @
              [SetHeader ''Content-Type'' ''text/plain'',
               SetHeader ''Access-Control-Allow-Origin'' (origin u),
               SetHeader ''Access-Control-Request-Method'' ''*'',
               SetHeader ''Access-Control-Allow-Methods'' ''OPTIONS, POST'',
               SetHeader ''Access-Control-Allow-Headers'' ''*'']))
   \<and> env_or_default (Some prod) = prod \<and> env_or_default (Some stage) = stage
   \<and> env_or_default None = prod"
  by (simp add: cors_def URL_new_table env_or_default_def DEFAULT_ENV_def)

theorem cors_sets_headers_witness:
  "cors [SetStatusCode 405] None
     = Inr [SetStatusCode 405,
            SetHeader ''Content-Type'' ''text/plain'',
            SetHeader ''Access-Control-Allow-Origin'' ''https://aio-login.adobeioruntime.net'',
            SetHeader ''Access-Control-Request-Method'' ''*'',
            SetHeader ''Access-Control-Allow-Methods'' ''OPTIONS, POST'',
            SetHeader ''Access-Control-Allow-Headers'' ''*'']
   \<and> cors [] (Some stage) = cors [] (Some prod)"
  using cors_sets_headers[of None "[SetStatusCode 405]"] cors_sets_headers[of "Some stage" "[]"]
    cors_sets_headers[of "Some prod" "[]"]
  by auto

subsection \<open>The native-window watcher\<close>

text \<open>
  C9 says that a URL which starts with the callback prefix and carries no code makes the
  watcher report a failure that names the URL. The code does not: with no code it
  evaluates the undeclared \<^verbatim>\<open>error\<close>, which throws, so nothing is written and the
  application does not exit; this holds for a URL without \<^verbatim>\<open>code=\<close> and for one with an
  empty code. A URL with a code is reported as success, and a URL that does not start
  with the prefix is ignored.
\<close>

theorem handleCallback_without_code:
  "handleCallback ''http://localhost/callback'' ''http://localhost/callback?error=access_denied'' True
     = (False, [], Some ReferenceError)
   \<and> handleCallback ''http://localhost/callback'' ''http://localhost/callback?code=&state=x'' True
     = (False, [], Some ReferenceError)
   \<and> handleCallback ''http://localhost/callback'' ''http://localhost/callback?code=abc&state=x'' True
     = (False, [StdoutWrite ''abc'', AppExit 0], None)
   \<and> handleCallback ''http://localhost/callback'' ''https://ims.example/login?code=abc'' True
     = (True, [], None)"
  by code_simp

subsection \<open>The query string of \<^verbatim>\<open>handleGET\<close>\<close>




end
